theory Spec2Isabelle
  imports Complex_Main
begin

section \<open>Configuration values\<close>

text \<open>
  The Sacred configuration of \<^verbatim>\<open>train.py\<close> is a nested Python dictionary whose
  leaves are classes and numbers. A dictionary is kept as an association list read
  with \<open>map_of\<close>; subscripting and \<^verbatim>\<open>in\<close> raise as Python does when the key is
  missing or the operand is no container.
\<close>

datatype pyval = Cls string | Num int | Dict "(string \<times> pyval) list"

datatype py_error = KeyError string | TypeError

text \<open>\<^verbatim>\<open>v[k]\<close>\<close>

definition getitem :: "pyval \<Rightarrow> string \<Rightarrow> py_error + pyval" where
  "getitem v k =
     (case v of
        Dict kvs \<Rightarrow> (case map_of kvs k of None \<Rightarrow> Inl (KeyError k) | Some x \<Rightarrow> Inr x)
      | Cls c \<Rightarrow> Inl TypeError
      | Num i \<Rightarrow> Inl TypeError)"

text \<open>\<^verbatim>\<open>k in v\<close>\<close>

definition contains :: "string \<Rightarrow> pyval \<Rightarrow> py_error + bool" where
  "contains k v =
     (case v of
        Dict kvs \<Rightarrow> Inr (k \<in> fst ` set kvs)
      | Cls c \<Rightarrow> Inl TypeError
      | Num i \<Rightarrow> Inl TypeError)"

subsection \<open>The configuration scopes of the train ingredient\<close>

text \<open>\<^verbatim>\<open>config()\<close>: the defaults of the ingredient.\<close>

definition config :: pyval where
  "config = Dict [(''policy_cls'', Cls ''base.FeedForward32Policy''),
                  (''policy_kwargs'', Dict []),
                  (''n_episodes_eval'', Num 50)]"

text \<open>The named configurations \<^verbatim>\<open>fast\<close>, \<^verbatim>\<open>sac\<close>, \<^verbatim>\<open>normalize_disable\<close>.\<close>

definition fast :: pyval where
  "fast = Dict [(''n_episodes_eval'', Num 1)]"

definition sac :: pyval where
  "sac = Dict [(''policy_cls'', Cls ''base.SAC1024Policy'')]"

definition normalize_disable :: pyval where
  "normalize_disable =
     Dict [(''policy_kwargs'',
            Dict [(''features_extractor_class'', Cls ''torch_layers.FlattenExtractor'')])]"

definition NORMALIZE_RUNNING_POLICY_KWARGS :: pyval where
  "NORMALIZE_RUNNING_POLICY_KWARGS =
     Dict [(''features_extractor_class'', Cls ''base.NormalizeFeaturesExtractor''),
           (''features_extractor_kwargs'',
            Dict [(''normalize_class'', Cls ''imitation.util.networks.RunningNorm'')])]"

definition normalize_running :: pyval where
  "normalize_running = Dict [(''policy_kwargs'', NORMALIZE_RUNNING_POLICY_KWARGS)]"

subsection \<open>The configuration hook\<close>

text \<open>
  \<^verbatim>\<open>config_hook(config, command_name, logger)\<close> drops its last two arguments and
  returns the update Sacred is to apply to the ingredient's configuration. It reads
  \<^verbatim>\<open>config["train"]["policy_kwargs"]\<close> and writes nothing.
\<close>

definition config_hook :: "pyval \<Rightarrow> 'c \<Rightarrow> 'l \<Rightarrow> py_error + pyval" where
  "config_hook cfg command_name logger =
     (case getitem cfg ''train'' of
        Inl e \<Rightarrow> Inl e
      | Inr train \<Rightarrow>
          (case getitem train ''policy_kwargs'' of
             Inl e \<Rightarrow> Inl e
           | Inr policy_kwargs \<Rightarrow>
               (case contains ''features_extractor_class'' policy_kwargs of
                  Inl e \<Rightarrow> Inl e
                | Inr present \<Rightarrow>
                    if \<not> present
                    then Inr (Dict [(''policy_kwargs'', NORMALIZE_RUNNING_POLICY_KWARGS)])
                    else Inr (Dict []))))"

section \<open>Evaluation of a policy\<close>

subsection \<open>Outcomes and sequencing\<close>

text \<open>
  A Python call either never comes back, raises an exception, or returns a value; in
  the last two cases it leaves a state behind. Statements in sequence run the second
  only when the first returned, from the state the first left.
\<close>

datatype ('x, 'v, 's) outcome = Diverges | Raises 'x 's | Returns 'v 's

definition and_then ::
  "('s \<Rightarrow> ('x, 'u, 's) outcome) \<Rightarrow> ('u \<Rightarrow> 's \<Rightarrow> ('x, 'v, 's) outcome) \<Rightarrow>
   's \<Rightarrow> ('x, 'v, 's) outcome" where
  "and_then m f s =
     (case m s of
        Diverges \<Rightarrow> Diverges
      | Raises e s' \<Rightarrow> Raises e s'
      | Returns u s' \<Rightarrow> f u s')"

definition ret :: "'v \<Rightarrow> 's \<Rightarrow> ('x, 'v, 's) outcome" where
  "ret v s = Returns v s"

subsection \<open>Objects and state\<close>

text \<open>
  \<^verbatim>\<open>rl_algo: Union[BaseAlgorithm, BasePolicy]\<close>, told apart by \<^verbatim>\<open>isinstance\<close>. Both
  are references to objects: \<open>'a\<close> names algorithm objects, \<open>'p\<close> policy objects.
\<close>

datatype ('a, 'p) rl_algo = BaseAlgorithm 'a | BasePolicy 'p

text \<open>
  The state a call runs in: the environment reference each algorithm object holds
  (\<^verbatim>\<open>BaseAlgorithm.env\<close>), and everything else the collaborators read or change (the
  Sacred configuration with its seed, the state of environments, generators and
  policies).
\<close>

record ('a, 'e, 'w) state =
  env_of :: "'a \<Rightarrow> 'e"
  world :: 'w

subsection \<open>Collaborators\<close>

text \<open>
  \<^verbatim>\<open>eval_policy\<close> calls \<^verbatim>\<open>common.make_rng\<close>, \<^verbatim>\<open>rollout.make_min_episodes\<close>,
  \<^verbatim>\<open>rollout.generate_trajectories\<close> and \<^verbatim>\<open>rollout.rollout_stats\<close>, and the methods
  \<^verbatim>\<open>set_env\<close> and \<^verbatim>\<open>get_env\<close> of the algorithm. None of them is defined in
  \<^verbatim>\<open>train.py\<close>, so the four functions are parameters: each may diverge, raise or
  return, and may change the state. \<open>wrap_env\<close> is what \<^verbatim>\<open>set_env\<close> does to the
  environment it is given before storing it (the wrappers it adds and the checks it
  makes, which may raise).
\<close>

record ('x, 'a, 'p, 'e, 'w, 'r, 'c, 't, 'v) collaborators =
  make_rng :: "('a, 'e, 'w) state \<Rightarrow> ('x, 'r, ('a, 'e, 'w) state) outcome"
  make_min_episodes :: "int \<Rightarrow> ('a, 'e, 'w) state \<Rightarrow> ('x, 'c, ('a, 'e, 'w) state) outcome"
  wrap_env :: "'a \<Rightarrow> 'e \<Rightarrow> 'w \<Rightarrow> 'x + 'e"
  generate_trajectories ::
    "('a, 'p) rl_algo \<Rightarrow> 'e \<Rightarrow> 'c \<Rightarrow> 'r \<Rightarrow> ('a, 'e, 'w) state \<Rightarrow>
     ('x, 't list, ('a, 'e, 'w) state) outcome"
  rollout_stats ::
    "'t list \<Rightarrow> ('a, 'e, 'w) state \<Rightarrow> ('x, string \<rightharpoonup> 'v, ('a, 'e, 'w) state) outcome"

text \<open>
  Modelled from the spec: \<^verbatim>\<open>BaseAlgorithm.set_env\<close> and \<^verbatim>\<open>BaseAlgorithm.get_env\<close>
  belong to the reinforcement-learning library, not to this file. The algorithm's
  "internal environment reference is replaced with the supplied environment", in its
  "possibly wrapper-augmented" form, and that reference is what the algorithm reports.
\<close>

definition set_env ::
  "('x, 'a, 'p, 'e, 'w, 'r, 'c, 't, 'v) collaborators \<Rightarrow> 'a \<Rightarrow> 'e \<Rightarrow>
   ('a, 'e, 'w) state \<Rightarrow> ('x, unit, ('a, 'e, 'w) state) outcome" where
  "set_env C a venv s =
     (case wrap_env C a venv (world s) of
        Inl e \<Rightarrow> Raises e s
      | Inr env \<Rightarrow> Returns () (s\<lparr>env_of := (env_of s)(a := env)\<rparr>))"

text \<open>
  Modelled from the spec: \<^verbatim>\<open>BaseAlgorithm.get_env\<close> reports the reference the algorithm
  holds.
\<close>

definition get_env :: "'a \<Rightarrow> ('a, 'e, 'w) state \<Rightarrow> ('x, 'e, ('a, 'e, 'w) state) outcome" where
  "get_env a s = Returns (env_of s a) s"

subsection \<open>eval\_policy\<close>

definition eval_policy ::
  "('x, 'a, 'p, 'e, 'w, 'r, 'c, 't, 'v) collaborators \<Rightarrow> ('a, 'p) rl_algo \<Rightarrow> 'e \<Rightarrow> int \<Rightarrow>
   ('a, 'e, 'w) state \<Rightarrow> ('x, string \<rightharpoonup> 'v, ('a, 'e, 'w) state) outcome" where
  "eval_policy C rl venv n_episodes_eval =
     and_then (make_rng C) (\<lambda>rng.
     and_then (make_min_episodes C n_episodes_eval) (\<lambda>sample_until_eval.
     and_then
       (case rl of
          BaseAlgorithm a \<Rightarrow> and_then (set_env C a venv) (\<lambda>_. get_env a)
        | BasePolicy p \<Rightarrow> ret venv) (\<lambda>train_env.
     and_then (generate_trajectories C rl train_env sample_until_eval rng) (\<lambda>trajs.
     rollout_stats C trajs))))"

subsection \<open>Relating two runs, and what a call leaves unchanged\<close>

text \<open>
  Two outcomes agree up to a relation \<open>R\<close> on states when both diverge, or both
  raise the same error, or both return the same value, and the states they leave are
  related by \<open>R\<close>.
\<close>

definition same_outcome ::
  "('s \<Rightarrow> 's \<Rightarrow> bool) \<Rightarrow> ('x, 'v, 's) outcome \<Rightarrow> ('x, 'v, 's) outcome \<Rightarrow> bool" where
  "same_outcome R o1 o2 =
     (case o1 of
        Diverges \<Rightarrow> (case o2 of Diverges \<Rightarrow> True | Raises e2 t \<Rightarrow> False | Returns v2 t \<Rightarrow> False)
      | Raises e1 s \<Rightarrow>
          (case o2 of Diverges \<Rightarrow> False | Raises e2 t \<Rightarrow> e1 = e2 \<and> R s t | Returns v2 t \<Rightarrow> False)
      | Returns v1 s \<Rightarrow>
          (case o2 of Diverges \<Rightarrow> False | Raises e2 t \<Rightarrow> False | Returns v2 t \<Rightarrow> v1 = v2 \<and> R s t))"

text \<open>The state a finished call leaves behind, if it finished.\<close>

definition final_state :: "('x, 'v, 's) outcome \<Rightarrow> 's option" where
  "final_state out = (case out of Diverges \<Rightarrow> None | Raises e s \<Rightarrow> Some s | Returns v s \<Rightarrow> Some s)"

text \<open>A call keeps a property of the state when every state it leaves has it.\<close>

definition keeps :: "('s \<Rightarrow> bool) \<Rightarrow> ('s \<Rightarrow> ('x, 'v, 's) outcome) \<Rightarrow> bool" where
  "keeps I m = (\<forall>s s'. I s \<and> final_state (m s) = Some s' \<longrightarrow> I s')"

section \<open>The rollout library\<close>

text \<open>
  \<^verbatim>\<open>imitation.data.rollout\<close> and \<^verbatim>\<open>imitation.scripts.common.common\<close> are not part
  of \<^verbatim>\<open>train.py\<close>. The definitions of this section follow the specification's
  description of them.
\<close>

text \<open>
  Modelled from the spec: the trajectories of \<^verbatim>\<open>imitation.data\<close>. A trajectory is "an
  ordered sequence of (observation, action, reward, done) steps produced by one episode
  rollout"; its return is the sum of its rewards. Where a "secondary reward signal" is
  "attached to the environment, such as a wrapped ground-truth monitor value", the
  trajectory carries the episode's value of that signal.
\<close>

record ('o, 'u) trajectory =
  steps :: "('o \<times> 'u \<times> real \<times> bool) list"
  secondary_return :: "real option"

definition episode_return :: "('o, 'u) trajectory \<Rightarrow> real" where
  "episode_return traj = sum_list (map (\<lambda>(obs, act, rew, done). rew) (steps traj))"

text \<open>The secondary returns of the trajectories that carry one.\<close>

definition secondary_returns :: "('o, 'u) trajectory list \<Rightarrow> real list" where
  "secondary_returns trajs = List.map_filter secondary_return trajs"

text \<open>
  Modelled from the spec: \<^verbatim>\<open>common.make_rng\<close>. "The random source is obtained from a
  shared configuration scope at call time": a generator determined by the
  configuration held in the state, which the call leaves as it is.
\<close>

definition make_rng_spec ::
  "('w \<Rightarrow> 'r) \<Rightarrow> ('a, 'e, 'w) state \<Rightarrow> ('x, 'r, ('a, 'e, 'w) state) outcome" where
  "make_rng_spec seeded s = Returns (seeded (world s)) s"

text \<open>
  Modelled from the spec: \<^verbatim>\<open>rollout.make_min_episodes\<close>. For a positive count the
  stopping criterion is "stop once at least N episodes have completed". For a count
  of zero or less the specification leaves two behaviours open, "either an explicit
  rejection error or non-termination" because "no trajectories would ever satisfy the
  stopping criterion": \<open>reject\<close> says which one, and with which error.
\<close>

definition make_min_episodes_spec ::
  "(int \<Rightarrow> 'x option) \<Rightarrow> int \<Rightarrow> 's \<Rightarrow> ('x, 't list \<Rightarrow> bool, 's) outcome" where
  "make_min_episodes_spec reject n s =
     (if 0 < n then Returns (\<lambda>trajs. n \<le> int (length trajs)) s
      else (case reject n of
              Some e \<Rightarrow> Raises e s
            | None \<Rightarrow> Returns (\<lambda>trajs. False) s))"

text \<open>
  Modelled from the spec: the loop of \<^verbatim>\<open>rollout.generate_trajectories\<close>.
  "Trajectories are generated in a loop, stepping all parallel environment instances
  simultaneously, collecting completed episodes until the stopping criterion is
  satisfied"; the criterion is "evaluated incrementally as trajectories complete", and
  the call "blocks indefinitely if the environment never signals episode completion".
  \<open>step\<close> is one simultaneous step of all instances under the policy: it returns the
  episodes that this step completed. \<open>None\<close> is a loop that never ends.
\<close>

partial_function (option) generation_loop ::
  "('s \<Rightarrow> ('x, 't list, 's) outcome) \<Rightarrow> ('t list \<Rightarrow> bool) \<Rightarrow> 't list \<Rightarrow> 's \<Rightarrow>
   (('x + 't list) \<times> 's) option" where
  "generation_loop step sample_until trajs s =
     (case step s of
        Diverges \<Rightarrow> None
      | Raises e s' \<Rightarrow> Some (Inl e, s')
      | Returns finished s' \<Rightarrow>
          if sample_until (trajs @ finished) then Some (Inr (trajs @ finished), s')
          else generation_loop step sample_until (trajs @ finished) s')"

text \<open>
  Modelled from the spec: \<^verbatim>\<open>rollout.generate_trajectories\<close>, the loop started with no
  trajectory collected.
\<close>

definition generate_trajectories_spec ::
  "('l \<Rightarrow> 'e \<Rightarrow> 'r \<Rightarrow> 's \<Rightarrow> ('x, 't list, 's) outcome) \<Rightarrow>
   'l \<Rightarrow> 'e \<Rightarrow> ('t list \<Rightarrow> bool) \<Rightarrow> 'r \<Rightarrow> 's \<Rightarrow> ('x, 't list, 's) outcome" where
  "generate_trajectories_spec step_all rl env sample_until rng s =
     (case generation_loop (step_all rl env rng) sample_until [] s of
        None \<Rightarrow> Diverges
      | Some (Inl e, s') \<Rightarrow> Raises e s'
      | Some (Inr trajs, s') \<Rightarrow> Returns trajs s')"

text \<open>
  Modelled from the spec: \<^verbatim>\<open>rollout.rollout_stats\<close>, "an aggregation over a set of
  trajectories producing, at minimum, mean and count of episode returns (both
  environment-native and any secondary reward signal attached to the environment, such
  as a wrapped ground-truth monitor value)", which fails on an empty trajectory set.
  The count and the mean of the environment's own returns are always there; the count
  and the mean of the secondary returns are there when some trajectory carries one, and
  are taken over the trajectories that do. The specification does not give the strings
  the statistics are stored under: the model uses \<^verbatim>\<open>n_traj\<close> and \<^verbatim>\<open>return_mean\<close>,
  and, after the \<^verbatim>\<open>monitor_return\<close> key that the docstring of \<^verbatim>\<open>eval_policy\<close>
  mentions, \<^verbatim>\<open>monitor_return_len\<close> and \<^verbatim>\<open>monitor_return_mean\<close>.
\<close>

definition rollout_stats_spec ::
  "'x \<Rightarrow> ('o, 'u) trajectory list \<Rightarrow> 's \<Rightarrow> ('x, string \<rightharpoonup> real, 's) outcome" where
  "rollout_stats_spec empty_error trajs s =
     (if trajs = [] then Raises empty_error s
      else if secondary_returns trajs = [] then
        Returns [''n_traj'' \<mapsto> real (length trajs),
                 ''return_mean'' \<mapsto> sum_list (map episode_return trajs) / real (length trajs)]
          s
      else
        Returns [''n_traj'' \<mapsto> real (length trajs),
                 ''return_mean'' \<mapsto> sum_list (map episode_return trajs) / real (length trajs),
                 ''monitor_return_len'' \<mapsto> real (length (secondary_returns trajs)),
                 ''monitor_return_mean'' \<mapsto>
                   sum_list (secondary_returns trajs) / real (length (secondary_returns trajs))]
          s)"

text \<open>
  The keys of the statistics: those of the environment's own returns, and those of the
  secondary returns when there are any.
\<close>

definition statistics_keys :: "bool \<Rightarrow> string set" where
  "statistics_keys secondary =
     {''n_traj'', ''return_mean''} \<union>
     (if secondary then {''monitor_return_len'', ''monitor_return_mean''} else {})"

text \<open>
  Modelled from the spec: the collaborators of \<^verbatim>\<open>eval_policy\<close> as the specification
  describes them, with the parts it leaves open as parameters.
\<close>

definition spec_collaborators ::
  "('w \<Rightarrow> 'r) \<Rightarrow> (int \<Rightarrow> 'x option) \<Rightarrow> ('a \<Rightarrow> 'e \<Rightarrow> 'w \<Rightarrow> 'x + 'e) \<Rightarrow>
   (('a, 'p) rl_algo \<Rightarrow> 'e \<Rightarrow> 'r \<Rightarrow> ('a, 'e, 'w) state \<Rightarrow>
      ('x, ('o, 'u) trajectory list, ('a, 'e, 'w) state) outcome) \<Rightarrow> 'x \<Rightarrow>
   ('x, 'a, 'p, 'e, 'w, 'r, ('o, 'u) trajectory list \<Rightarrow> bool, ('o, 'u) trajectory, real)
     collaborators" where
  "spec_collaborators seeded reject wrap step_all empty_error =
     \<lparr>make_rng = make_rng_spec seeded,
      make_min_episodes = make_min_episodes_spec reject,
      wrap_env = wrap,
      generate_trajectories = generate_trajectories_spec step_all,
      rollout_stats = rollout_stats_spec empty_error\<rparr>"

section \<open>A five-step environment\<close>

text \<open>
  The environment of the specification's scenario: one instance, reward 1 at every
  step, every episode exactly five steps long, no secondary reward signal. The world
  counts the steps taken in the running episode.
\<close>

definition five_step_episode :: "(nat, unit) trajectory" where
  "five_step_episode =
     \<lparr>steps = [(0, (), 1, False), (1, (), 1, False), (2, (), 1, False), (3, (), 1, False),
               (4, (), 1, True)],
      secondary_return = None\<rparr>"

definition five_step_env ::
  "(nat, unit) rl_algo \<Rightarrow> string \<Rightarrow> nat \<Rightarrow> (nat, string, nat) state \<Rightarrow>
   (string, (nat, unit) trajectory list, (nat, string, nat) state) outcome" where
  "five_step_env rl env rng s =
     (if Suc (world s) = 5 then Returns [five_step_episode] (s\<lparr>world := 0\<rparr>)
      else Returns [] (s\<lparr>world := Suc (world s)\<rparr>))"

definition transpose_wrapper :: "nat \<Rightarrow> string \<Rightarrow> nat \<Rightarrow> string + string" where
  "transpose_wrapper a env w = Inr (''VecTransposeImage '' @ env)"

definition five_step_collaborators ::
  "(int \<Rightarrow> string option) \<Rightarrow>
   (string, nat, unit, string, nat, nat, (nat, unit) trajectory list \<Rightarrow> bool,
    (nat, unit) trajectory, real) collaborators" where
  "five_step_collaborators reject =
     spec_collaborators (\<lambda>w. 0) reject transpose_wrapper five_step_env ''no trajectories''"

definition fresh :: "(nat, string, nat) state" where
  "fresh = \<lparr>env_of = (\<lambda>a. ''training env''), world = 0\<rparr>"

text \<open>An environment whose step fails.\<close>

definition broken_env ::
  "(nat, unit) rl_algo \<Rightarrow> string \<Rightarrow> nat \<Rightarrow> (nat, string, nat) state \<Rightarrow>
   (string, (nat, unit) trajectory list, (nat, string, nat) state) outcome" where
  "broken_env rl env rng s = Raises ''observation space mismatch'' s"

subsection \<open>Environments with a monitor\<close>

text \<open>
  A monitor wrapped around an environment: every episode the environment completes
  carries its return as the secondary signal.
\<close>

definition monitor_wrapped ::
  "('l \<Rightarrow> 'e \<Rightarrow> 'r \<Rightarrow> 's \<Rightarrow> ('x, ('o, 'u) trajectory list, 's) outcome) \<Rightarrow>
   'l \<Rightarrow> 'e \<Rightarrow> 'r \<Rightarrow> 's \<Rightarrow> ('x, ('o, 'u) trajectory list, 's) outcome" where
  "monitor_wrapped step_all rl env rng s =
     (case step_all rl env rng s of
        Diverges \<Rightarrow> Diverges
      | Raises e s' \<Rightarrow> Raises e s'
      | Returns finished s' \<Rightarrow>
          Returns (map (\<lambda>t. t\<lparr>secondary_return := Some (episode_return t)\<rparr>) finished) s')"

definition monitored_collaborators ::
  "(string, nat, unit, string, nat, nat, (nat, unit) trajectory list \<Rightarrow> bool,
    (nat, unit) trajectory, real) collaborators" where
  "monitored_collaborators =
     spec_collaborators (\<lambda>w. 0) (\<lambda>n. None) transpose_wrapper (monitor_wrapped five_step_env)
       ''no trajectories''"

text \<open>
  One instance, reward 1 at every step, every episode two steps long, with a monitor that
  reports every second episode only. The world counts the steps taken since the last
  reported episode.
\<close>

definition two_step_episode :: "real option \<Rightarrow> (nat, unit) trajectory" where
  "two_step_episode reported =
     \<lparr>steps = [(0, (), 1, False), (1, (), 1, True)], secondary_return = reported\<rparr>"

definition sparse_monitor_env ::
  "(nat, unit) rl_algo \<Rightarrow> string \<Rightarrow> nat \<Rightarrow> (nat, string, nat) state \<Rightarrow>
   (string, (nat, unit) trajectory list, (nat, string, nat) state) outcome" where
  "sparse_monitor_env rl env rng s =
     (if Suc (world s) = 2 then Returns [two_step_episode None] (s\<lparr>world := 2\<rparr>)
      else if Suc (world s) = 4 then Returns [two_step_episode (Some 2)] (s\<lparr>world := 0\<rparr>)
      else Returns [] (s\<lparr>world := Suc (world s)\<rparr>))"

definition sparse_monitor_collaborators ::
  "(string, nat, unit, string, nat, nat, (nat, unit) trajectory list \<Rightarrow> bool,
    (nat, unit) trajectory, real) collaborators" where
  "sparse_monitor_collaborators =
     spec_collaborators (\<lambda>w. 0) (\<lambda>n. None) transpose_wrapper sparse_monitor_env
       ''no trajectories''"

section \<open>Sequencing\<close>

lemma and_then_Returns_iff:
  "and_then m f s = Returns v s' \<longleftrightarrow> (\<exists>u s1. m s = Returns u s1 \<and> f u s1 = Returns v s')"
  by (auto simp: and_then_def split: outcome.splits)

lemma and_then_Raises_iff:
  "and_then m f s = Raises e s' \<longleftrightarrow>
     m s = Raises e s' \<or> (\<exists>u s1. m s = Returns u s1 \<and> f u s1 = Raises e s')"
  by (auto simp: and_then_def split: outcome.splits)

lemma and_then_Diverges_iff:
  "and_then m f s = Diverges \<longleftrightarrow>
     m s = Diverges \<or> (\<exists>u s1. m s = Returns u s1 \<and> f u s1 = Diverges)"
  by (auto simp: and_then_def split: outcome.splits)

lemma and_then_Returns: "m s = Returns u s1 \<Longrightarrow> and_then m f s = f u s1"
  by (simp add: and_then_def)

lemma and_then_ret: "and_then (ret v) f = f v"
  by (rule ext) (simp add: and_then_def ret_def)

subsection \<open>Replacing and reading the algorithm's environment\<close>

lemma set_env_Returns_iff:
  "set_env C a venv s = Returns u s' \<longleftrightarrow>
     (\<exists>env. wrap_env C a venv (world s) = Inr env \<and> s' = s\<lparr>env_of := (env_of s)(a := env)\<rparr>)"
  by (auto simp: set_env_def split: sum.splits)

lemma set_env_Raises_iff:
  "set_env C a venv s = Raises e s' \<longleftrightarrow> wrap_env C a venv (world s) = Inl e \<and> s' = s"
  by (auto simp: set_env_def split: sum.splits)

lemma set_env_not_Diverges: "set_env C a venv s \<noteq> Diverges"
  by (simp add: set_env_def split: sum.splits)

lemma algorithm_env_Returns_iff:
  "and_then (set_env C a venv) (\<lambda>_. get_env a) s = Returns env s' \<longleftrightarrow>
     wrap_env C a venv (world s) = Inr env \<and> s' = s\<lparr>env_of := (env_of s)(a := env)\<rparr>"
  by (auto simp: and_then_Returns_iff set_env_Returns_iff get_env_def)

lemma algorithm_env_Raises_iff:
  "and_then (set_env C a venv) (\<lambda>_. get_env a) s = Raises e s' \<longleftrightarrow>
     wrap_env C a venv (world s) = Inl e \<and> s' = s"
  by (auto simp: and_then_Raises_iff set_env_Raises_iff get_env_def)

subsection \<open>What a returning call went through\<close>

lemma eval_policy_algorithm_unfold:
  assumes "make_rng C s = Returns rng s1"
    and "make_min_episodes C n s1 = Returns crit s2"
    and "wrap_env C a venv (world s2) = Inr env"
  shows "eval_policy C (BaseAlgorithm a) venv n s =
           and_then (generate_trajectories C (BaseAlgorithm a) env crit rng) (rollout_stats C)
             (s2\<lparr>env_of := (env_of s2)(a := env)\<rparr>)"
  using assms by (simp add: eval_policy_def and_then_def set_env_def get_env_def)

lemma eval_policy_Returns_algorithm:
  assumes "eval_policy C (BaseAlgorithm a) venv n s = Returns stats s'"
  shows "\<exists>rng s1 crit s2 env trajs s4.
           make_rng C s = Returns rng s1 \<and>
           make_min_episodes C n s1 = Returns crit s2 \<and>
           wrap_env C a venv (world s2) = Inr env \<and>
           generate_trajectories C (BaseAlgorithm a) env crit rng
             (s2\<lparr>env_of := (env_of s2)(a := env)\<rparr>) = Returns trajs s4 \<and>
           rollout_stats C trajs s4 = Returns stats s'"
proof -
  from assms obtain rng s1 where rng: "make_rng C s = Returns rng s1"
    and r1: "and_then (make_min_episodes C n) (\<lambda>sample_until_eval.
       and_then (and_then (set_env C a venv) (\<lambda>_. get_env a)) (\<lambda>train_env.
       and_then (generate_trajectories C (BaseAlgorithm a) train_env sample_until_eval rng)
         (rollout_stats C))) s1 = Returns stats s'"
    unfolding eval_policy_def and_then_Returns_iff [of "make_rng C"] by auto
  from r1 obtain crit s2 where crit: "make_min_episodes C n s1 = Returns crit s2"
    and r2: "and_then (and_then (set_env C a venv) (\<lambda>_. get_env a)) (\<lambda>train_env.
       and_then (generate_trajectories C (BaseAlgorithm a) train_env crit rng)
         (rollout_stats C)) s2 = Returns stats s'"
    unfolding and_then_Returns_iff [of "make_min_episodes C n"] by auto
  from r2 obtain env s3 where
    env: "and_then (set_env C a venv) (\<lambda>_. get_env a) s2 = Returns env s3"
    and r3: "and_then (generate_trajectories C (BaseAlgorithm a) env crit rng)
         (rollout_stats C) s3 = Returns stats s'"
    unfolding and_then_Returns_iff [of "and_then (set_env C a venv) (\<lambda>_. get_env a)"]
    by auto
  from env have wrap: "wrap_env C a venv (world s2) = Inr env"
    and s3: "s3 = s2\<lparr>env_of := (env_of s2)(a := env)\<rparr>"
    by (simp_all add: algorithm_env_Returns_iff)
  from r3 obtain trajs s4 where
    "generate_trajectories C (BaseAlgorithm a) env crit rng s3 = Returns trajs s4"
    and "rollout_stats C trajs s4 = Returns stats s'"
    unfolding and_then_Returns_iff by auto
  with rng crit wrap s3 show ?thesis by blast
qed

lemma eval_policy_Returns_policy:
  assumes "eval_policy C (BasePolicy p) venv n s = Returns stats s'"
  shows "\<exists>rng s1 crit s2 trajs s4.
           make_rng C s = Returns rng s1 \<and>
           make_min_episodes C n s1 = Returns crit s2 \<and>
           generate_trajectories C (BasePolicy p) venv crit rng s2 = Returns trajs s4 \<and>
           rollout_stats C trajs s4 = Returns stats s'"
proof -
  from assms obtain rng s1 where rng: "make_rng C s = Returns rng s1"
    and r1: "and_then (make_min_episodes C n) (\<lambda>sample_until_eval.
       and_then (ret venv) (\<lambda>train_env.
       and_then (generate_trajectories C (BasePolicy p) train_env sample_until_eval rng)
         (rollout_stats C))) s1 = Returns stats s'"
    unfolding eval_policy_def and_then_Returns_iff [of "make_rng C"] by auto
  from r1 obtain crit s2 where crit: "make_min_episodes C n s1 = Returns crit s2"
    and r2: "and_then (ret venv) (\<lambda>train_env.
       and_then (generate_trajectories C (BasePolicy p) train_env crit rng)
         (rollout_stats C)) s2 = Returns stats s'"
    unfolding and_then_Returns_iff [of "make_min_episodes C n"] by auto
  from r2 have r3: "and_then (generate_trajectories C (BasePolicy p) venv crit rng)
         (rollout_stats C) s2 = Returns stats s'"
    by (simp add: and_then_def [of "ret venv"] ret_def)
  from r3 obtain trajs s4 where
    "generate_trajectories C (BasePolicy p) venv crit rng s2 = Returns trajs s4"
    and "rollout_stats C trajs s4 = Returns stats s'"
    unfolding and_then_Returns_iff by auto
  with rng crit show ?thesis by blast
qed

lemma eval_policy_Returns:
  assumes "eval_policy C rl venv n s = Returns stats s'"
  shows "\<exists>rng s1 crit s2 env s3 trajs s4.
           make_rng C s = Returns rng s1 \<and>
           make_min_episodes C n s1 = Returns crit s2 \<and>
           generate_trajectories C rl env crit rng s3 = Returns trajs s4 \<and>
           rollout_stats C trajs s4 = Returns stats s'"
proof (cases rl)
  case (BaseAlgorithm a)
  with assms show ?thesis using eval_policy_Returns_algorithm [of C a venv n s stats s'] by blast
next
  case (BasePolicy p)
  with assms show ?thesis using eval_policy_Returns_policy [of C p venv n s stats s'] by blast
qed

lemma eval_policy_Raises:
  assumes "eval_policy C rl venv n s = Raises e s'"
  shows "make_rng C s = Raises e s' \<or>
     (\<exists>rng s1. make_rng C s = Returns rng s1 \<and>
        (make_min_episodes C n s1 = Raises e s' \<or>
         (\<exists>crit s2. make_min_episodes C n s1 = Returns crit s2 \<and>
            ((\<exists>a. rl = BaseAlgorithm a \<and> wrap_env C a venv (world s2) = Inl e \<and> s' = s2) \<or>
             (\<exists>env s3.
                generate_trajectories C rl env crit rng s3 = Raises e s' \<or>
                (\<exists>trajs s4.
                   generate_trajectories C rl env crit rng s3 = Returns trajs s4 \<and>
                   rollout_stats C trajs s4 = Raises e s'))))))"
proof (cases rl)
  case (BaseAlgorithm a)
  from assms show ?thesis
    unfolding BaseAlgorithm eval_policy_def rl_algo.case
    by (simp add: and_then_Raises_iff set_env_Raises_iff get_env_def algorithm_env_Returns_iff)
      blast
next
  case (BasePolicy p)
  from assms show ?thesis
    unfolding BasePolicy eval_policy_def rl_algo.case
    by (simp add: and_then_ret and_then_Raises_iff) blast
qed

subsection \<open>Properties kept, runs related\<close>

lemma keeps_Returns: "keeps I m \<Longrightarrow> I s \<Longrightarrow> m s = Returns v s' \<Longrightarrow> I s'"
  unfolding keeps_def by (drule spec [of _ s], drule spec [of _ s']) (simp add: final_state_def)

lemma keeps_Raises: "keeps I m \<Longrightarrow> I s \<Longrightarrow> m s = Raises e s' \<Longrightarrow> I s'"
  unfolding keeps_def by (drule spec [of _ s], drule spec [of _ s']) (simp add: final_state_def)

lemma keeps_and_then:
  assumes "keeps I m" and "\<And>u. keeps I (f u)"
  shows "keeps I (and_then m f)"
  unfolding keeps_def
proof (intro allI impI)
  fix s s' assume h: "I s \<and> final_state (and_then m f s) = Some s'"
  show "I s'"
  proof (cases "m s")
    case Diverges
    with h show ?thesis by (simp add: and_then_def final_state_def)
  next
    case (Raises e s1)
    with h have "final_state (m s) = Some s'" by (simp add: and_then_def final_state_def)
    with h assms(1) show ?thesis unfolding keeps_def by blast
  next
    case (Returns u s1)
    then have "final_state (m s) = Some s1" by (simp add: final_state_def)
    with h assms(1) have "I s1" unfolding keeps_def by blast
    moreover from Returns h have "final_state (f u s1) = Some s'" by (simp add: and_then_def)
    ultimately show ?thesis using assms(2) [of u] unfolding keeps_def by blast
  qed
qed

lemma keeps_ret: "keeps I (ret v)"
  by (simp add: keeps_def ret_def final_state_def)

lemma same_outcome_and_then:
  assumes "same_outcome R (m1 s) (m2 t)"
    and "\<And>u s' t'. R s' t' \<Longrightarrow> same_outcome R (f1 u s') (f2 u t')"
  shows "same_outcome R (and_then m1 f1 s) (and_then m2 f2 t)"
proof (cases "m1 s")
  case Diverges
  with assms(1) have "m2 t = Diverges"
    by (cases "m2 t") (simp_all add: same_outcome_def)
  with Diverges show ?thesis by (simp add: and_then_def same_outcome_def)
next
  case (Raises e s1)
  with assms(1) obtain t1 where "m2 t = Raises e t1" and "R s1 t1"
    by (cases "m2 t") (simp_all add: same_outcome_def)
  with Raises show ?thesis by (simp add: and_then_def same_outcome_def)
next
  case (Returns u s1)
  with assms(1) obtain t1 where "m2 t = Returns u t1" and "R s1 t1"
    by (cases "m2 t") (simp_all add: same_outcome_def)
  with Returns assms(2) [of s1 t1 u] show ?thesis by (simp add: and_then_def)
qed

lemma same_outcome_algorithm_env:
  assumes "R s t"
    and "wrap_env C a venv (world s) = wrap_env C a venv (world t)"
    and "\<And>env. R (s\<lparr>env_of := (env_of s)(a := env)\<rparr>) (t\<lparr>env_of := (env_of t)(a := env)\<rparr>)"
  shows "same_outcome R (and_then (set_env C a venv) (\<lambda>_. get_env a) s)
           (and_then (set_env C a venv) (\<lambda>_. get_env a) t)"
  using assms
  by (auto simp: same_outcome_def and_then_def set_env_def get_env_def split: sum.splits)

lemma same_outcome_converse:
  "same_outcome R o1 o2 \<Longrightarrow> same_outcome (\<lambda>t s. R s t) o2 o1"
  by (cases o1; cases o2) (auto simp: same_outcome_def)

section \<open>The rollout library as specified\<close>

text \<open>The loop returns only trajectory sets that satisfy the stopping criterion.\<close>

lemma generation_loop_criterion:
  fixes step :: "'s \<Rightarrow> ('x, 't list, 's) outcome"
  assumes ret: "generation_loop step sample_until trajs s = Some r"
  shows "\<forall>ts s'. r = (Inr ts, s') \<longrightarrow> sample_until ts"
proof (rule generation_loop.raw_induct
    [where P = "\<lambda>step sample_until trajs s r. \<forall>ts s'. r = (Inr ts, s') \<longrightarrow> sample_until ts",
      OF _ ret])
  fix f :: "('s \<Rightarrow> ('x, 't list, 's) outcome) \<Rightarrow> ('t list \<Rightarrow> bool) \<Rightarrow> 't list \<Rightarrow> 's \<Rightarrow>
            (('x + 't list) \<times> 's) option"
    and step sample_until trajs s r
  assume IH: "\<And>step sample_until trajs s r.
      f step sample_until trajs s = Some r \<Longrightarrow> \<forall>ts s'. r = (Inr ts, s') \<longrightarrow> sample_until ts"
    and eq: "(case step s of
        Diverges \<Rightarrow> None
      | Raises e s' \<Rightarrow> Some (Inl e, s')
      | Returns finished s' \<Rightarrow>
          if sample_until (trajs @ finished) then Some (Inr (trajs @ finished), s')
          else f step sample_until (trajs @ finished) s') = Some r"
  show "\<forall>ts s'. r = (Inr ts, s') \<longrightarrow> sample_until ts"
  proof (cases "step s")
    case Diverges
    with eq show ?thesis by simp
  next
    case (Raises e s1)
    with eq show ?thesis by auto
  next
    case (Returns finished s1)
    show ?thesis
    proof (cases "sample_until (trajs @ finished)")
      case True
      with eq Returns show ?thesis by auto
    next
      case False
      with eq Returns have "f step sample_until (trajs @ finished) s1 = Some r" by simp
      then show ?thesis by (rule IH)
    qed
  qed
qed

text \<open>
An error of the loop is an error of a step.
\<close>

lemma generation_loop_Raises:
  fixes step :: "'s \<Rightarrow> ('x, 't list, 's) outcome"
  assumes ret: "generation_loop step sample_until trajs s = Some r"
  shows "\<forall>e s'. r = (Inl e, s') \<longrightarrow> (\<exists>s0. step s0 = Raises e s')"
proof (rule generation_loop.raw_induct
    [where P = "\<lambda>step sample_until trajs s r.
                  \<forall>e s'. r = (Inl e, s') \<longrightarrow> (\<exists>s0. step s0 = Raises e s')",
      OF _ ret])
  fix f :: "('s \<Rightarrow> ('x, 't list, 's) outcome) \<Rightarrow> ('t list \<Rightarrow> bool) \<Rightarrow> 't list \<Rightarrow> 's \<Rightarrow>
            (('x + 't list) \<times> 's) option"
    and step sample_until trajs s r
  assume IH: "\<And>step sample_until trajs s r.
      f step sample_until trajs s = Some r \<Longrightarrow>
      \<forall>e s'. r = (Inl e, s') \<longrightarrow> (\<exists>s0. step s0 = Raises e s')"
    and eq: "(case step s of
        Diverges \<Rightarrow> None
      | Raises e s' \<Rightarrow> Some (Inl e, s')
      | Returns finished s' \<Rightarrow>
          if sample_until (trajs @ finished) then Some (Inr (trajs @ finished), s')
          else f step sample_until (trajs @ finished) s') = Some r"
  show "\<forall>e s'. r = (Inl e, s') \<longrightarrow> (\<exists>s0. step s0 = Raises e s')"
  proof (cases "step s")
    case Diverges
    with eq show ?thesis by simp
  next
    case (Raises e s1)
    with eq show ?thesis by auto
  next
    case (Returns finished s1)
    show ?thesis
    proof (cases "sample_until (trajs @ finished)")
      case True
      with eq Returns show ?thesis by auto
    next
      case False
      with eq Returns have "f step sample_until (trajs @ finished) s1 = Some r" by simp
      then show ?thesis by (rule IH)
    qed
  qed
qed

text \<open>The loop keeps every property of the state that a step keeps.\<close>

lemma generation_loop_keeps:
  fixes step :: "'s \<Rightarrow> ('x, 't list, 's) outcome"
  assumes ret: "generation_loop step sample_until trajs s = Some r"
  shows "keeps I step \<longrightarrow> I s \<longrightarrow> I (snd r)"
proof (rule generation_loop.raw_induct
    [where P = "\<lambda>step sample_until trajs s r. keeps I step \<longrightarrow> I s \<longrightarrow> I (snd r)", OF _ ret])
  fix f :: "('s \<Rightarrow> ('x, 't list, 's) outcome) \<Rightarrow> ('t list \<Rightarrow> bool) \<Rightarrow> 't list \<Rightarrow> 's \<Rightarrow>
            (('x + 't list) \<times> 's) option"
    and step sample_until trajs s r
  assume IH: "\<And>step sample_until trajs s r.
      f step sample_until trajs s = Some r \<Longrightarrow> keeps I step \<longrightarrow> I s \<longrightarrow> I (snd r)"
    and eq: "(case step s of
        Diverges \<Rightarrow> None
      | Raises e s' \<Rightarrow> Some (Inl e, s')
      | Returns finished s' \<Rightarrow>
          if sample_until (trajs @ finished) then Some (Inr (trajs @ finished), s')
          else f step sample_until (trajs @ finished) s') = Some r"
  show "keeps I step \<longrightarrow> I s \<longrightarrow> I (snd r)"
  proof (intro impI)
    assume k: "keeps I step" and i: "I s"
    show "I (snd r)"
    proof (cases "step s")
      case Diverges
      with eq show ?thesis by simp
    next
      case (Raises e s1)
      with k i have "I s1" by (rule keeps_Raises)
      with eq Raises show ?thesis by auto
    next
      case (Returns finished s1)
      with k i have s1: "I s1" by (rule keeps_Returns)
      show ?thesis
      proof (cases "sample_until (trajs @ finished)")
        case True
        with eq Returns s1 show ?thesis by auto
      next
        case False
        with eq Returns have "f step sample_until (trajs @ finished) s1 = Some r" by simp
        from IH [OF this] k s1 show ?thesis by simp
      qed
    qed
  qed
qed

text \<open>
  Two runs of the loop from related states, with a step that respects the relation: if
  the first run ends, the second ends in the same way.
\<close>

lemma generation_loop_related:
  fixes step :: "'s \<Rightarrow> ('x, 't list, 's) outcome"
  assumes ret: "generation_loop step sample_until trajs s = Some r"
  shows "(\<forall>s t. R s t \<longrightarrow> same_outcome R (step s) (step t)) \<longrightarrow>
         (\<forall>t. R s t \<longrightarrow>
            (\<exists>t'. generation_loop step sample_until trajs t = Some (fst r, t') \<and> R (snd r) t'))"
proof (rule generation_loop.raw_induct
    [where P = "\<lambda>step sample_until trajs s r.
       (\<forall>s t. R s t \<longrightarrow> same_outcome R (step s) (step t)) \<longrightarrow>
       (\<forall>t. R s t \<longrightarrow>
          (\<exists>t'. generation_loop step sample_until trajs t = Some (fst r, t') \<and> R (snd r) t'))",
      OF _ ret])
  fix f :: "('s \<Rightarrow> ('x, 't list, 's) outcome) \<Rightarrow> ('t list \<Rightarrow> bool) \<Rightarrow> 't list \<Rightarrow> 's \<Rightarrow>
            (('x + 't list) \<times> 's) option"
    and step sample_until trajs s r
  assume IH: "\<And>step sample_until trajs s r.
      f step sample_until trajs s = Some r \<Longrightarrow>
      (\<forall>s t. R s t \<longrightarrow> same_outcome R (step s) (step t)) \<longrightarrow>
      (\<forall>t. R s t \<longrightarrow>
         (\<exists>t'. generation_loop step sample_until trajs t = Some (fst r, t') \<and> R (snd r) t'))"
    and eq: "(case step s of
        Diverges \<Rightarrow> None
      | Raises e s' \<Rightarrow> Some (Inl e, s')
      | Returns finished s' \<Rightarrow>
          if sample_until (trajs @ finished) then Some (Inr (trajs @ finished), s')
          else f step sample_until (trajs @ finished) s') = Some r"
  show "(\<forall>s t. R s t \<longrightarrow> same_outcome R (step s) (step t)) \<longrightarrow>
        (\<forall>t. R s t \<longrightarrow>
           (\<exists>t'. generation_loop step sample_until trajs t = Some (fst r, t') \<and> R (snd r) t'))"
  proof (intro impI allI)
    fix t
    assume resp: "\<forall>s t. R s t \<longrightarrow> same_outcome R (step s) (step t)" and st: "R s t"
    then have so: "same_outcome R (step s) (step t)" by blast
    show "\<exists>t'. generation_loop step sample_until trajs t = Some (fst r, t') \<and> R (snd r) t'"
    proof (cases "step s")
      case Diverges
      with eq show ?thesis by simp
    next
      case (Raises e s1)
      with so obtain t1 where t1: "step t = Raises e t1" "R s1 t1"
        by (cases "step t") (simp_all add: same_outcome_def)
      from eq Raises have "r = (Inl e, s1)" by simp
      with t1 show ?thesis by (subst generation_loop.simps) simp
    next
      case (Returns finished s1)
      with so obtain t1 where t1: "step t = Returns finished t1" "R s1 t1"
        by (cases "step t") (simp_all add: same_outcome_def)
      show ?thesis
      proof (cases "sample_until (trajs @ finished)")
        case True
        with eq Returns have "r = (Inr (trajs @ finished), s1)" by simp
        with t1 True show ?thesis by (subst generation_loop.simps) simp
      next
        case False
        with eq Returns have "f step sample_until (trajs @ finished) s1 = Some r" by simp
        from IH [OF this] resp t1(2) obtain t' where
          "generation_loop step sample_until (trajs @ finished) t1 = Some (fst r, t')"
          and "R (snd r) t'" by blast
        with t1 False show ?thesis by (subst generation_loop.simps) simp
      qed
    qed
  qed
qed

text \<open>
  With an environment that completes at least one episode at every step, the loop
  with the criterion "at least \<open>N\<close> episodes" returns.
\<close>

lemma generation_loop_terminates:
  fixes step :: "'s \<Rightarrow> ('x, 't list, 's) outcome"
  assumes productive: "\<And>s. \<exists>finished s'. step s = Returns finished s' \<and> finished \<noteq> []"
  shows "\<exists>ts s'. generation_loop step (\<lambda>trajs. N \<le> int (length trajs)) trajs s =
           Some (Inr ts, s')"
proof (induction "nat N - length trajs" arbitrary: trajs s rule: less_induct)
  case less
  from productive [of s] obtain finished s1 where
    step: "step s = Returns finished s1" and ne: "finished \<noteq> []" by blast
  show ?case
  proof (cases "N \<le> int (length (trajs @ finished))")
    case True
    with step show ?thesis by (subst generation_loop.simps) simp
  next
    case False
    with ne have "nat N - length (trajs @ finished) < nat N - length trajs"
      by (cases finished) auto
    from less [OF this] obtain ts s' where
      "generation_loop step (\<lambda>trajs. N \<le> int (length trajs)) (trajs @ finished) s1 =
         Some (Inr ts, s')" by blast
    with step False show ?thesis by (subst generation_loop.simps) simp
  qed
qed

text \<open>What holds of every episode a step completes holds of every trajectory collected.\<close>

lemma generation_loop_all:
  fixes step :: "'s \<Rightarrow> ('x, 't list, 's) outcome"
  assumes ret: "generation_loop step sample_until trajs s = Some r"
  shows "(\<forall>s finished s'. step s = Returns finished s' \<longrightarrow> (\<forall>t \<in> set finished. P t)) \<longrightarrow>
         (\<forall>t \<in> set trajs. P t) \<longrightarrow>
         (\<forall>ts s'. r = (Inr ts, s') \<longrightarrow> (\<forall>t \<in> set ts. P t))"
proof (rule generation_loop.raw_induct
    [where P = "\<lambda>step sample_until trajs s r.
       (\<forall>s finished s'. step s = Returns finished s' \<longrightarrow> (\<forall>t \<in> set finished. P t)) \<longrightarrow>
       (\<forall>t \<in> set trajs. P t) \<longrightarrow>
       (\<forall>ts s'. r = (Inr ts, s') \<longrightarrow> (\<forall>t \<in> set ts. P t))",
      OF _ ret])
  fix f :: "('s \<Rightarrow> ('x, 't list, 's) outcome) \<Rightarrow> ('t list \<Rightarrow> bool) \<Rightarrow> 't list \<Rightarrow> 's \<Rightarrow>
            (('x + 't list) \<times> 's) option"
    and step sample_until trajs s r
  assume IH: "\<And>step sample_until trajs s r.
      f step sample_until trajs s = Some r \<Longrightarrow>
      (\<forall>s finished s'. step s = Returns finished s' \<longrightarrow> (\<forall>t \<in> set finished. P t)) \<longrightarrow>
      (\<forall>t \<in> set trajs. P t) \<longrightarrow>
      (\<forall>ts s'. r = (Inr ts, s') \<longrightarrow> (\<forall>t \<in> set ts. P t))"
    and eq: "(case step s of
        Diverges \<Rightarrow> None
      | Raises e s' \<Rightarrow> Some (Inl e, s')
      | Returns finished s' \<Rightarrow>
          if sample_until (trajs @ finished) then Some (Inr (trajs @ finished), s')
          else f step sample_until (trajs @ finished) s') = Some r"
  show "(\<forall>s finished s'. step s = Returns finished s' \<longrightarrow> (\<forall>t \<in> set finished. P t)) \<longrightarrow>
        (\<forall>t \<in> set trajs. P t) \<longrightarrow>
        (\<forall>ts s'. r = (Inr ts, s') \<longrightarrow> (\<forall>t \<in> set ts. P t))"
  proof (intro impI)
    assume stp: "\<forall>s finished s'. step s = Returns finished s' \<longrightarrow> (\<forall>t \<in> set finished. P t)"
      and acc: "\<forall>t \<in> set trajs. P t"
    show "\<forall>ts s'. r = (Inr ts, s') \<longrightarrow> (\<forall>t \<in> set ts. P t)"
    proof (cases "step s")
      case Diverges
      with eq show ?thesis by simp
    next
      case (Raises e s1)
      with eq show ?thesis by auto
    next
      case (Returns finished s1)
      with stp have "\<forall>t \<in> set finished. P t" by blast
      with acc have acc': "\<forall>t \<in> set (trajs @ finished). P t" by auto
      show ?thesis
      proof (cases "sample_until (trajs @ finished)")
        case True
        with eq Returns acc' show ?thesis by auto
      next
        case False
        with eq Returns have "f step sample_until (trajs @ finished) s1 = Some r" by simp
        from IH [OF this] stp acc' show ?thesis by blast
      qed
    qed
  qed
qed

lemma generate_trajectories_spec_all:
  assumes gen: "generate_trajectories_spec step_all rl env sample_until rng s = Returns trajs s'"
    and stp: "\<And>s finished s'. step_all rl env rng s = Returns finished s' \<Longrightarrow>
                \<forall>t \<in> set finished. P t"
  shows "\<forall>t \<in> set trajs. P t"
proof -
  from gen have "generation_loop (step_all rl env rng) sample_until [] s = Some (Inr trajs, s')"
    by (auto simp: generate_trajectories_spec_def split: option.splits sum.splits prod.splits)
  from generation_loop_all [OF this, of P] stp show ?thesis by simp
qed

lemma generate_trajectories_spec_criterion:
  assumes "generate_trajectories_spec step_all rl env sample_until rng s = Returns trajs s'"
  shows "sample_until trajs"
proof -
  from assms have "generation_loop (step_all rl env rng) sample_until [] s = Some (Inr trajs, s')"
    by (auto simp: generate_trajectories_spec_def split: option.splits sum.splits prod.splits)
  from generation_loop_criterion [OF this] show ?thesis by simp
qed

lemma generate_trajectories_spec_Raises:
  assumes "generate_trajectories_spec step_all rl env sample_until rng s = Raises e s'"
  shows "\<exists>s0. step_all rl env rng s0 = Raises e s'"
proof -
  from assms have "generation_loop (step_all rl env rng) sample_until [] s = Some (Inl e, s')"
    by (auto simp: generate_trajectories_spec_def split: option.splits sum.splits prod.splits)
  from generation_loop_Raises [OF this] show ?thesis by simp
qed

lemma generate_trajectories_spec_keeps:
  assumes "keeps I (step_all rl env rng)"
  shows "keeps I (generate_trajectories_spec step_all rl env sample_until rng)"
  unfolding keeps_def
proof (intro allI impI)
  fix s s'
  assume h: "I s \<and>
    final_state (generate_trajectories_spec step_all rl env sample_until rng s) = Some s'"
  then obtain x where "generation_loop (step_all rl env rng) sample_until [] s = Some (x, s')"
    by (auto simp: generate_trajectories_spec_def final_state_def
        split: option.splits sum.splits prod.splits)
  from generation_loop_keeps [OF this, of I] assms h show "I s'" by simp
qed

lemma generate_trajectories_spec_related:
  assumes resp: "\<And>s t. R s t \<Longrightarrow>
      same_outcome R (step_all rl env rng s) (step_all rl env rng t)"
    and st: "R s t"
  shows "same_outcome R (generate_trajectories_spec step_all rl env sample_until rng s)
           (generate_trajectories_spec step_all rl env sample_until rng t)"
proof (cases "generation_loop (step_all rl env rng) sample_until [] s")
  case (Some r)
  from generation_loop_related [OF Some, of R] resp st obtain t' where
    "generation_loop (step_all rl env rng) sample_until [] t = Some (fst r, t')"
    and "R (snd r) t'" by blast
  with Some show ?thesis
    by (cases r; cases "fst r")
      (simp_all add: generate_trajectories_spec_def same_outcome_def)
next
  case None
  have "generation_loop (step_all rl env rng) sample_until [] t = None"
  proof (cases "generation_loop (step_all rl env rng) sample_until [] t")
    case None
    then show ?thesis .
  next
    case (Some r)
    have "\<And>t s. (\<lambda>t s. R s t) t s \<Longrightarrow>
        same_outcome (\<lambda>t s. R s t) (step_all rl env rng t) (step_all rl env rng s)"
      by (rule same_outcome_converse) (rule resp)
    with generation_loop_related [OF Some, of "\<lambda>t s. R s t"] st obtain s' where
      "generation_loop (step_all rl env rng) sample_until [] s = Some (fst r, s')" by blast
    with None show ?thesis by simp
  qed
  with None show ?thesis by (simp add: generate_trajectories_spec_def same_outcome_def)
qed

lemma make_min_episodes_spec_Returns:
  assumes "make_min_episodes_spec reject n s = Returns crit s'"
  shows "crit = (if 0 < n then (\<lambda>trajs. n \<le> int (length trajs)) else (\<lambda>trajs. False))"
  using assms by (auto simp: make_min_episodes_spec_def split: if_splits option.splits)

lemma make_min_episodes_spec_Raises:
  assumes "make_min_episodes_spec reject n s = Raises e s'"
  shows "n \<le> 0 \<and> reject n = Some e \<and> s' = s"
  using assms by (auto simp: make_min_episodes_spec_def split: if_splits option.splits)

lemma rollout_stats_spec_Returns:
  assumes "rollout_stats_spec empty_error trajs s = Returns stats s'"
  shows "trajs \<noteq> [] \<and> s' = s \<and>
         stats =
           (if secondary_returns trajs = [] then
              [''n_traj'' \<mapsto> real (length trajs),
               ''return_mean'' \<mapsto> sum_list (map episode_return trajs) / real (length trajs)]
            else
              [''n_traj'' \<mapsto> real (length trajs),
               ''return_mean'' \<mapsto> sum_list (map episode_return trajs) / real (length trajs),
               ''monitor_return_len'' \<mapsto> real (length (secondary_returns trajs)),
               ''monitor_return_mean'' \<mapsto>
                 sum_list (secondary_returns trajs) / real (length (secondary_returns trajs))])"
proof (cases "trajs = []")
  case True
  with assms show ?thesis by (simp add: rollout_stats_spec_def)
next
  case ne: False
  show ?thesis
  proof (cases "secondary_returns trajs = []")
    case True
    with ne assms show ?thesis unfolding rollout_stats_spec_def by simp
  next
    case False
    with ne assms show ?thesis unfolding rollout_stats_spec_def by simp
  qed
qed

lemma secondary_returns_empty_iff:
  "secondary_returns trajs = [] \<longleftrightarrow> (\<forall>t \<in> set trajs. secondary_return t = None)"
  by (induction trajs) (auto simp: secondary_returns_def map_filter_simps split: option.splits)

lemma dom_native_keys:
  "dom [''n_traj'' \<mapsto> a, ''return_mean'' \<mapsto> b] = statistics_keys False"
  by (simp add: statistics_keys_def insert_commute)

lemma dom_all_keys:
  "dom [''n_traj'' \<mapsto> a, ''return_mean'' \<mapsto> b, ''monitor_return_len'' \<mapsto> c,
        ''monitor_return_mean'' \<mapsto> d] = statistics_keys True"
  unfolding statistics_keys_def
  by (simp only: dom_fun_upd dom_empty option.simps if_False if_True Un_insert_left
      Un_insert_right Un_empty_left Un_empty_right insert_commute)

text \<open>
  The statistics have the keys of the secondary returns exactly when some trajectory
  carries one.
\<close>

lemma rollout_stats_spec_keys:
  assumes "rollout_stats_spec empty_error trajs s = Returns stats s'"
  shows "dom stats = statistics_keys (\<exists>t \<in> set trajs. secondary_return t \<noteq> None)"
proof (cases "secondary_returns trajs = []")
  case True
  with rollout_stats_spec_Returns [OF assms] have
    "stats = [''n_traj'' \<mapsto> real (length trajs),
              ''return_mean'' \<mapsto> sum_list (map episode_return trajs) / real (length trajs)]"
    by simp
  then have "dom stats = statistics_keys False" by (simp only: dom_native_keys)
  moreover from True have "\<forall>t \<in> set trajs. secondary_return t = None"
    unfolding secondary_returns_empty_iff .
  then have "(\<exists>t \<in> set trajs. secondary_return t \<noteq> None) = False" by simp
  ultimately show ?thesis by (simp only:)
next
  case False
  with rollout_stats_spec_Returns [OF assms] have
    "stats = [''n_traj'' \<mapsto> real (length trajs),
              ''return_mean'' \<mapsto> sum_list (map episode_return trajs) / real (length trajs),
              ''monitor_return_len'' \<mapsto> real (length (secondary_returns trajs)),
              ''monitor_return_mean'' \<mapsto>
                sum_list (secondary_returns trajs) / real (length (secondary_returns trajs))]"
    by simp
  then have "dom stats = statistics_keys True" by (simp only: dom_all_keys)
  moreover from False have "\<not> (\<forall>t \<in> set trajs. secondary_return t = None)"
    unfolding secondary_returns_empty_iff .
  then have "(\<exists>t \<in> set trajs. secondary_return t \<noteq> None) = True" by simp
  ultimately show ?thesis by (simp only:)
qed

lemma spec_collaborators_simps:
  "make_rng (spec_collaborators seeded reject wrap step_all err) = make_rng_spec seeded"
  "make_min_episodes (spec_collaborators seeded reject wrap step_all err) =
     make_min_episodes_spec reject"
  "wrap_env (spec_collaborators seeded reject wrap step_all err) = wrap"
  "generate_trajectories (spec_collaborators seeded reject wrap step_all err) =
     generate_trajectories_spec step_all"
  "rollout_stats (spec_collaborators seeded reject wrap step_all err) = rollout_stats_spec err"
  by (simp_all add: spec_collaborators_def)

lemma eval_policy_spec_keys:
  assumes "eval_policy (spec_collaborators seeded reject wrap step_all err) rl venv N s =
             Returns stats s'"
  shows "\<exists>env crit rng s3 trajs s4.
           generate_trajectories_spec step_all rl env crit rng s3 = Returns trajs s4 \<and>
           trajs \<noteq> [] \<and>
           dom stats = statistics_keys (\<exists>t \<in> set trajs. secondary_return t \<noteq> None)"
proof -
  let ?C = "spec_collaborators seeded reject wrap step_all err"
  from eval_policy_Returns [OF assms] obtain rng crit env s3 trajs s4 where
    h: "generate_trajectories ?C rl env crit rng s3 = Returns trajs s4"
      "rollout_stats ?C trajs s4 = Returns stats s'"
    by blast
  from h(1) have gen: "generate_trajectories_spec step_all rl env crit rng s3 = Returns trajs s4"
    by (simp add: spec_collaborators_simps)
  from h(2) have stats: "rollout_stats_spec err trajs s4 = Returns stats s'"
    by (simp add: spec_collaborators_simps)
  from rollout_stats_spec_Returns [OF stats] have "trajs \<noteq> []" by simp
  with gen rollout_stats_spec_keys [OF stats] show ?thesis by blast
qed

section \<open>Runs in the five-step environment\<close>

lemmas five_step_defs =
  eval_policy_def five_step_collaborators_def spec_collaborators_def and_then_def
  ret_def make_rng_spec_def make_min_episodes_spec_def generate_trajectories_spec_def
  generation_loop.simps five_step_env_def fresh_def rollout_stats_spec_def
  five_step_episode_def episode_return_def set_env_def get_env_def transpose_wrapper_def
  secondary_returns_def map_filter_simps

text \<open>
  The specification's scenario: one episode asked for, five steps of reward 1 each,
  so one episode of return 5.
\<close>

lemma five_step_run:
  "eval_policy (five_step_collaborators reject) (BasePolicy ()) ''venv'' 1 fresh =
     Returns [''n_traj'' \<mapsto> 1, ''return_mean'' \<mapsto> 5] fresh"
  by (simp add: five_step_defs)

lemma five_step_run_2:
  "eval_policy (five_step_collaborators reject) (BasePolicy ()) ''venv'' 2 fresh =
     Returns [''n_traj'' \<mapsto> 2, ''return_mean'' \<mapsto> 5] fresh"
  by (simp add: five_step_defs)

lemma five_step_run_algorithm:
  "eval_policy (five_step_collaborators reject) (BaseAlgorithm 0) ''venv'' 1 fresh =
     Returns [''n_traj'' \<mapsto> 1, ''return_mean'' \<mapsto> 5]
       (fresh\<lparr>env_of := (env_of fresh)(0 := ''VecTransposeImage venv'')\<rparr>)"
  by (simp add: five_step_defs)

lemma five_step_rejects:
  "eval_policy (five_step_collaborators (\<lambda>n. Some ''n must be positive'')) (BasePolicy ())
     ''venv'' 0 fresh = Raises ''n must be positive'' fresh"
  by (simp add: five_step_defs)

lemma five_step_never_stops:
  "generation_loop (five_step_env rl env rng) (\<lambda>trajs. False) trajs s = None"
proof (cases "generation_loop (five_step_env rl env rng) (\<lambda>trajs. False) trajs s")
  case None
  then show ?thesis .
next
  case (Some r)
  obtain x s' where r: "r = (x, s')" by (cases r)
  show ?thesis
  proof (cases x)
    case (Inl e)
    with generation_loop_Raises [OF Some] r
    obtain s0 where "five_step_env rl env rng s0 = Raises e s'" by blast
    then show ?thesis by (simp add: five_step_env_def split: if_splits)
  next
    case (Inr ts)
    with generation_loop_criterion [OF Some] r show ?thesis by simp
  qed
qed

lemma five_step_diverges:
  "eval_policy (five_step_collaborators (\<lambda>n. None)) (BasePolicy ()) ''venv'' 0 fresh = Diverges"
  by (simp add: eval_policy_def five_step_collaborators_def spec_collaborators_def and_then_def
      ret_def make_rng_spec_def make_min_episodes_spec_def generate_trajectories_spec_def
      five_step_never_stops)

lemma five_step_env_keeps_env_of: "keeps (\<lambda>t. P (env_of t)) (five_step_env rl env rng)"
  by (auto simp: keeps_def final_state_def five_step_env_def split: if_splits)

lemma five_step_collaborators_keep_env_of:
  "keeps (\<lambda>t. P (env_of t)) (make_rng (five_step_collaborators reject))"
  "keeps (\<lambda>t. P (env_of t)) (make_min_episodes (five_step_collaborators reject) n)"
  "keeps (\<lambda>t. P (env_of t))
     (generate_trajectories (five_step_collaborators reject) rl env crit rng)"
  "keeps (\<lambda>t. P (env_of t)) (rollout_stats (five_step_collaborators reject) trajs)"
proof -
  show "keeps (\<lambda>t. P (env_of t)) (make_rng (five_step_collaborators reject))"
    by (simp add: five_step_collaborators_def spec_collaborators_simps keeps_def
        final_state_def make_rng_spec_def)
  show "keeps (\<lambda>t. P (env_of t)) (make_min_episodes (five_step_collaborators reject) n)"
    by (auto simp: five_step_collaborators_def spec_collaborators_simps keeps_def
        final_state_def make_min_episodes_spec_def split: option.splits)
  show "keeps (\<lambda>t. P (env_of t))
     (generate_trajectories (five_step_collaborators reject) rl env crit rng)"
    unfolding five_step_collaborators_def spec_collaborators_simps
    by (rule generate_trajectories_spec_keeps) (rule five_step_env_keeps_env_of)
  show "keeps (\<lambda>t. P (env_of t)) (rollout_stats (five_step_collaborators reject) trajs)"
    by (auto simp: five_step_collaborators_def spec_collaborators_simps keeps_def
        final_state_def rollout_stats_spec_def)
qed

section \<open>The result of eval\_policy\<close>

text \<open>
  C1. The claim is that every call returns a mapping with two statistics blocks, one for
  the trajectories of this call and one for an expert trajectory set, as the docstring
  says (keys \<^verbatim>\<open>imit_stats\<close> and \<^verbatim>\<open>expert_stats\<close>). The code returns
  \<^verbatim>\<open>rollout_stats(trajs)\<close> itself: in the five-step environment with one episode
  asked for, the result is the flat mapping of the count and the mean return of the
  generated trajectories, and has neither key.
\<close>

theorem eval_policy_returns_one_block:
  "eval_policy (five_step_collaborators (\<lambda>n. None)) (BasePolicy ()) ''venv'' 1 fresh =
     Returns [''n_traj'' \<mapsto> 1, ''return_mean'' \<mapsto> 5] fresh \<and>
   ''imit_stats'' \<notin> dom [''n_traj'' \<mapsto> 1::real, ''return_mean'' \<mapsto> 5] \<and>
   ''expert_stats'' \<notin> dom [''n_traj'' \<mapsto> 1::real, ''return_mean'' \<mapsto> 5]"
  using five_step_run [of "\<lambda>n. None"] by simp

section \<open>The environment the rollout runs on\<close>

text \<open>
  C2. When \<^verbatim>\<open>rl_algo\<close> is a training algorithm, then once the generator and the
  stopping criterion are there and \<^verbatim>\<open>set_env\<close> has accepted the environment passed
  in: the algorithm's environment reference is replaced, before the rollout, by the
  wrapped form \<open>env\<close> of that environment, whatever it held before; the rollout runs
  on \<open>env\<close>, the environment the algorithm reports, in the state with the reference
  replaced; and however the call ends, the reference holds \<open>env\<close> afterwards, when
  generation and statistics leave it alone.
\<close>

theorem eval_policy_algorithm_env:
  assumes rng: "make_rng C s = Returns rng s1"
    and crit: "make_min_episodes C n s1 = Returns crit s2"
    and wrap: "wrap_env C a venv (world s2) = Inr env"
    and gen: "keeps (\<lambda>t. env_of t a = env)
                (generate_trajectories C (BaseAlgorithm a) env crit rng)"
    and stats: "\<And>trajs. keeps (\<lambda>t. env_of t a = env) (rollout_stats C trajs)"
  shows "eval_policy C (BaseAlgorithm a) venv n s =
           and_then (generate_trajectories C (BaseAlgorithm a) env crit rng) (rollout_stats C)
             (s2\<lparr>env_of := (env_of s2)(a := env)\<rparr>)
       \<and> env_of (s2\<lparr>env_of := (env_of s2)(a := env)\<rparr>) a = env
       \<and> (\<forall>s'. final_state (eval_policy C (BaseAlgorithm a) venv n s) = Some s' \<longrightarrow>
             env_of s' a = env)"
proof (intro conjI allI impI)
  let ?s3 = "s2\<lparr>env_of := (env_of s2)(a := env)\<rparr>"
  show run: "eval_policy C (BaseAlgorithm a) venv n s =
      and_then (generate_trajectories C (BaseAlgorithm a) env crit rng) (rollout_stats C) ?s3"
    using rng crit wrap by (rule eval_policy_algorithm_unfold)
  show s3: "env_of ?s3 a = env" by simp
  fix s'
  assume "final_state (eval_policy C (BaseAlgorithm a) venv n s) = Some s'"
  with run have fin: "final_state
      (and_then (generate_trajectories C (BaseAlgorithm a) env crit rng) (rollout_stats C) ?s3)
      = Some s'" by simp
  have "keeps (\<lambda>t. env_of t a = env)
      (and_then (generate_trajectories C (BaseAlgorithm a) env crit rng) (rollout_stats C))"
    using gen stats by (rule keeps_and_then)
  with s3 fin show "env_of s' a = env" unfolding keeps_def by blast
qed

theorem eval_policy_algorithm_env_witness:
  "make_rng (five_step_collaborators (\<lambda>n. None)) fresh = Returns 0 fresh \<and>
   make_min_episodes (five_step_collaborators (\<lambda>n. None)) 1 fresh =
     Returns (\<lambda>trajs. 1 \<le> int (length trajs)) fresh \<and>
   wrap_env (five_step_collaborators (\<lambda>n. None)) 0 ''venv'' (world fresh) =
     Inr ''VecTransposeImage venv'' \<and>
   env_of fresh 0 = ''training env'' \<and>
   eval_policy (five_step_collaborators (\<lambda>n. None)) (BaseAlgorithm 0) ''venv'' 1 fresh =
     and_then
       (generate_trajectories (five_step_collaborators (\<lambda>n. None)) (BaseAlgorithm 0)
          ''VecTransposeImage venv'' (\<lambda>trajs. 1 \<le> int (length trajs)) 0)
       (rollout_stats (five_step_collaborators (\<lambda>n. None)))
       (fresh\<lparr>env_of := (env_of fresh)(0 := ''VecTransposeImage venv'')\<rparr>) \<and>
   eval_policy (five_step_collaborators (\<lambda>n. None)) (BaseAlgorithm 0) ''venv'' 1 fresh =
     Returns [''n_traj'' \<mapsto> 1, ''return_mean'' \<mapsto> 5]
       (fresh\<lparr>env_of := (env_of fresh)(0 := ''VecTransposeImage venv'')\<rparr>) \<and>
   env_of (fresh\<lparr>env_of := (env_of fresh)(0 := ''VecTransposeImage venv'')\<rparr>) 0 =
     ''VecTransposeImage venv''"
proof -
  let ?C = "five_step_collaborators (\<lambda>n. None)"
  have a: "make_rng ?C fresh = Returns 0 fresh"
    by (simp add: five_step_collaborators_def spec_collaborators_simps make_rng_spec_def)
  have b: "make_min_episodes ?C 1 fresh = Returns (\<lambda>trajs. 1 \<le> int (length trajs)) fresh"
    by (simp add: five_step_collaborators_def spec_collaborators_simps
        make_min_episodes_spec_def)
  have c: "wrap_env ?C 0 ''venv'' (world fresh) = Inr ''VecTransposeImage venv''"
    by (simp add: five_step_collaborators_def spec_collaborators_simps transpose_wrapper_def)
  have gen: "keeps (\<lambda>t. env_of t 0 = ''VecTransposeImage venv'')
      (generate_trajectories ?C (BaseAlgorithm 0) ''VecTransposeImage venv''
         (\<lambda>trajs. 1 \<le> int (length trajs)) 0)"
    by (rule five_step_collaborators_keep_env_of(3)
        [where P = "\<lambda>f. f 0 = ''VecTransposeImage venv''"])
  have stats: "keeps (\<lambda>t. env_of t 0 = ''VecTransposeImage venv'') (rollout_stats ?C trajs)"
    for trajs
    by (rule five_step_collaborators_keep_env_of(4)
        [where P = "\<lambda>f. f 0 = ''VecTransposeImage venv''"])
  from eval_policy_algorithm_env [OF a b c gen stats] a b c
    five_step_run_algorithm [of "\<lambda>n. None"]
  show ?thesis by (simp add: fresh_def)
qed

text \<open>
  C6. When \<^verbatim>\<open>rl_algo\<close> is a bare policy, then once the generator and the stopping
  criterion are there, the call is the generation of trajectories on the environment
  the caller passed, in the state as it is, followed by the statistics.
\<close>

theorem eval_policy_bare_policy_env:
  assumes "make_rng C s = Returns rng s1"
    and "make_min_episodes C n s1 = Returns crit s2"
  shows "eval_policy C (BasePolicy p) venv n s =
           and_then (generate_trajectories C (BasePolicy p) venv crit rng) (rollout_stats C) s2"
  using assms by (simp add: eval_policy_def and_then_def ret_def)

theorem eval_policy_bare_policy_env_witness:
  "make_rng (five_step_collaborators (\<lambda>n. None)) fresh = Returns 0 fresh \<and>
   make_min_episodes (five_step_collaborators (\<lambda>n. None)) 1 fresh =
     Returns (\<lambda>trajs. 1 \<le> int (length trajs)) fresh \<and>
   eval_policy (five_step_collaborators (\<lambda>n. None)) (BasePolicy ()) ''venv'' 1 fresh =
     and_then
       (generate_trajectories (five_step_collaborators (\<lambda>n. None)) (BasePolicy ()) ''venv''
          (\<lambda>trajs. 1 \<le> int (length trajs)) 0)
       (rollout_stats (five_step_collaborators (\<lambda>n. None))) fresh \<and>
   generate_trajectories (five_step_collaborators (\<lambda>n. None)) (BasePolicy ()) ''venv''
     (\<lambda>trajs. 1 \<le> int (length trajs)) 0 fresh = Returns [five_step_episode] fresh"
proof -
  let ?C = "five_step_collaborators (\<lambda>n. None)"
  have a: "make_rng ?C fresh = Returns 0 fresh"
    by (simp add: five_step_collaborators_def spec_collaborators_simps make_rng_spec_def)
  have b: "make_min_episodes ?C 1 fresh = Returns (\<lambda>trajs. 1 \<le> int (length trajs)) fresh"
    by (simp add: five_step_collaborators_def spec_collaborators_simps
        make_min_episodes_spec_def)
  have c: "generate_trajectories ?C (BasePolicy ()) ''venv''
     (\<lambda>trajs. 1 \<le> int (length trajs)) 0 fresh = Returns [five_step_episode] fresh"
    by (simp add: five_step_collaborators_def spec_collaborators_simps
        generate_trajectories_spec_def generation_loop.simps five_step_env_def fresh_def)
  from eval_policy_bare_policy_env [OF a b, of "()" "''venv''"] a b c show ?thesis by simp
qed

text \<open>
  C9. When \<^verbatim>\<open>rl_algo\<close> is a bare policy, every property of the state that the four
  collaborators keep (such as the value of every environment reference, or the state
  of the policy and of the environment) is kept by the call, and the call does not
  depend on what \<^verbatim>\<open>set_env\<close> would do: the environment is replaced on the
  algorithm branch only.
\<close>

theorem eval_policy_bare_policy_keeps:
  assumes "keeps I (make_rng C)"
    and "keeps I (make_min_episodes C n)"
    and "\<And>crit rng. keeps I (generate_trajectories C (BasePolicy p) venv crit rng)"
    and "\<And>trajs. keeps I (rollout_stats C trajs)"
  shows "keeps I (eval_policy C (BasePolicy p) venv n)
       \<and> eval_policy (C\<lparr>wrap_env := w\<rparr>) (BasePolicy p) venv n = eval_policy C (BasePolicy p) venv n"
proof
  show "keeps I (eval_policy C (BasePolicy p) venv n)"
    unfolding eval_policy_def rl_algo.case and_then_ret
    by (intro keeps_and_then assms)
  show "eval_policy (C\<lparr>wrap_env := w\<rparr>) (BasePolicy p) venv n = eval_policy C (BasePolicy p) venv n"
    by (simp add: eval_policy_def)
qed

theorem eval_policy_bare_policy_keeps_witness:
  "keeps (\<lambda>s. env_of s = (\<lambda>a. ''training env''))
     (eval_policy (five_step_collaborators (\<lambda>n. None)) (BasePolicy ()) ''venv'' 1) \<and>
   eval_policy (five_step_collaborators (\<lambda>n. None)) (BasePolicy ()) ''venv'' 1 fresh =
     Returns [''n_traj'' \<mapsto> 1, ''return_mean'' \<mapsto> 5] fresh \<and>
   eval_policy (five_step_collaborators (\<lambda>n. None)\<lparr>wrap_env := \<lambda>a env w. Inl ''no wrapper''\<rparr>)
     (BasePolicy ()) ''venv'' 1 =
   eval_policy (five_step_collaborators (\<lambda>n. None)) (BasePolicy ()) ''venv'' 1"
proof -
  let ?C = "five_step_collaborators (\<lambda>n. None)"
  let ?P = "\<lambda>f :: nat \<Rightarrow> string. f = (\<lambda>a. ''training env'')"
  note k = five_step_collaborators_keep_env_of [where P = ?P and reject = "\<lambda>n. None"]
  from eval_policy_bare_policy_keeps
    [of "\<lambda>s. ?P (env_of s)" ?C 1 "()" "''venv''" "\<lambda>a env w. Inl ''no wrapper''",
      OF k(1) k(2) k(3) k(4)]
    five_step_run [of "\<lambda>n. None"]
  show ?thesis by simp
qed

section \<open>Errors\<close>

text \<open>
  C7. The call raises an error \<open>e\<close> and leaves the state \<open>s'\<close> exactly when one of
  the collaborators it reached (the generator source, the stopping-criterion
  constructor, \<^verbatim>\<open>set_env\<close>, trajectory generation, statistics) raised \<open>e\<close> and left
  \<open>s'\<close>: every error is passed on as it is, nothing runs after it, and the call
  raises no error of its own.
\<close>

theorem eval_policy_raises_iff:
  "eval_policy C rl venv n s = Raises e s' \<longleftrightarrow>
     make_rng C s = Raises e s' \<or>
     (\<exists>rng s1. make_rng C s = Returns rng s1 \<and>
        (make_min_episodes C n s1 = Raises e s' \<or>
         (\<exists>crit s2. make_min_episodes C n s1 = Returns crit s2 \<and>
            (case rl of
               BaseAlgorithm a \<Rightarrow>
                 wrap_env C a venv (world s2) = Inl e \<and> s' = s2 \<or>
                 (\<exists>env. wrap_env C a venv (world s2) = Inr env \<and>
                    (generate_trajectories C rl env crit rng
                       (s2\<lparr>env_of := (env_of s2)(a := env)\<rparr>) = Raises e s' \<or>
                     (\<exists>trajs s4.
                        generate_trajectories C rl env crit rng
                          (s2\<lparr>env_of := (env_of s2)(a := env)\<rparr>) = Returns trajs s4 \<and>
                        rollout_stats C trajs s4 = Raises e s')))
             | BasePolicy p \<Rightarrow>
                 generate_trajectories C rl venv crit rng s2 = Raises e s' \<or>
                 (\<exists>trajs s4.
                    generate_trajectories C rl venv crit rng s2 = Returns trajs s4 \<and>
                    rollout_stats C trajs s4 = Raises e s')))))"
proof (cases rl)
  case (BaseAlgorithm a)
  show ?thesis
    unfolding BaseAlgorithm eval_policy_def rl_algo.case
    by (simp add: and_then_Raises_iff set_env_Raises_iff get_env_def algorithm_env_Returns_iff)
next
  case (BasePolicy p)
  show ?thesis
    unfolding BasePolicy eval_policy_def rl_algo.case
    by (simp add: and_then_ret and_then_Raises_iff)
qed

theorem eval_policy_raises_iff_witness:
  "eval_policy
     (spec_collaborators (\<lambda>w. 0) (\<lambda>n. None) transpose_wrapper broken_env ''no trajectories'')
     (BasePolicy ()) ''venv'' 1 fresh = Raises ''observation space mismatch'' fresh"
  by (subst eval_policy_raises_iff)
    (simp add: spec_collaborators_simps make_rng_spec_def make_min_episodes_spec_def
      generate_trajectories_spec_def generation_loop.simps broken_env_def)

section \<open>Two runs\<close>

text \<open>
  C4. Let \<open>R\<close> relate the states of two calls (for instance: the same seeded
  configuration scope). If every collaborator, run with the same arguments in related
  states, ends in the same way with the same value in related states, then two calls of
  \<^verbatim>\<open>eval_policy\<close> with the same arguments in related states end in the same way,
  with the same statistics.
\<close>

theorem eval_policy_deterministic:
  assumes "R s t"
    and rng: "\<And>s t. R s t \<Longrightarrow> same_outcome R (make_rng C s) (make_rng C t)"
    and crit: "\<And>s t. R s t \<Longrightarrow>
       same_outcome R (make_min_episodes C n s) (make_min_episodes C n t)"
    and wrap: "\<And>a s t. R s t \<Longrightarrow> wrap_env C a venv (world s) = wrap_env C a venv (world t)"
    and upd: "\<And>a env s t. R s t \<Longrightarrow>
       R (s\<lparr>env_of := (env_of s)(a := env)\<rparr>) (t\<lparr>env_of := (env_of t)(a := env)\<rparr>)"
    and gen: "\<And>env crit rng s t. R s t \<Longrightarrow>
       same_outcome R (generate_trajectories C rl env crit rng s)
         (generate_trajectories C rl env crit rng t)"
    and stats: "\<And>trajs s t. R s t \<Longrightarrow>
       same_outcome R (rollout_stats C trajs s) (rollout_stats C trajs t)"
  shows "same_outcome R (eval_policy C rl venv n s) (eval_policy C rl venv n t)"
proof -
  have env: "same_outcome R
      ((case rl of BaseAlgorithm a \<Rightarrow> and_then (set_env C a venv) (\<lambda>_. get_env a)
        | BasePolicy p \<Rightarrow> ret venv) s')
      ((case rl of BaseAlgorithm a \<Rightarrow> and_then (set_env C a venv) (\<lambda>_. get_env a)
        | BasePolicy p \<Rightarrow> ret venv) t')" if "R s' t'" for s' t'
  proof (cases rl)
    case (BaseAlgorithm a)
    from that wrap [OF that] upd [OF that] show ?thesis
      unfolding BaseAlgorithm rl_algo.case by (rule same_outcome_algorithm_env)
  next
    case (BasePolicy p)
    from that show ?thesis by (simp add: BasePolicy ret_def same_outcome_def)
  qed
  show ?thesis
    unfolding eval_policy_def
    by (intro same_outcome_and_then rng crit env gen stats assms(1))
qed

theorem eval_policy_deterministic_witness:
  "world fresh = world (fresh\<lparr>env_of := \<lambda>a. ''stale env''\<rparr>) \<and>
   same_outcome (\<lambda>s t. world s = world t)
     (eval_policy (five_step_collaborators (\<lambda>n. None)) (BaseAlgorithm 0) ''venv'' 1 fresh)
     (eval_policy (five_step_collaborators (\<lambda>n. None)) (BaseAlgorithm 0) ''venv'' 1
        (fresh\<lparr>env_of := \<lambda>a. ''stale env''\<rparr>)) \<and>
   eval_policy (five_step_collaborators (\<lambda>n. None)) (BaseAlgorithm 0) ''venv'' 1
     (fresh\<lparr>env_of := \<lambda>a. ''stale env''\<rparr>) =
     Returns [''n_traj'' \<mapsto> 1, ''return_mean'' \<mapsto> 5]
       (fresh\<lparr>env_of := (\<lambda>a. ''stale env'')(0 := ''VecTransposeImage venv'')\<rparr>)"
proof -
  let ?C = "five_step_collaborators (\<lambda>n. None)"
  let ?R = "\<lambda>s t :: (nat, string, nat) state. world s = world t"
  have r: "?R fresh (fresh\<lparr>env_of := \<lambda>a. ''stale env''\<rparr>)" by simp
  have step: "same_outcome ?R (five_step_env rl env rng s) (five_step_env rl env rng t)"
    if "?R s t" for rl env rng s t
    using that by (simp add: five_step_env_def same_outcome_def)
  have gen: "same_outcome ?R (generate_trajectories ?C rl env crit rng s)
      (generate_trajectories ?C rl env crit rng t)" if "?R s t" for rl env crit rng s t
    unfolding five_step_collaborators_def spec_collaborators_simps
    using step that by (rule generate_trajectories_spec_related)
  have "same_outcome ?R
     (eval_policy ?C (BaseAlgorithm 0) ''venv'' 1 fresh)
     (eval_policy ?C (BaseAlgorithm 0) ''venv'' 1 (fresh\<lparr>env_of := \<lambda>a. ''stale env''\<rparr>))"
  proof (rule eval_policy_deterministic [where R = ?R, OF r])
    show "same_outcome ?R (generate_trajectories ?C (BaseAlgorithm 0) env crit rng s)
      (generate_trajectories ?C (BaseAlgorithm 0) env crit rng t)" if "?R s t"
      for env crit rng s t
      using that by (rule gen)
  qed (auto simp: same_outcome_def five_step_collaborators_def spec_collaborators_simps
      make_rng_spec_def make_min_episodes_spec_def rollout_stats_spec_def transpose_wrapper_def
      split: option.splits)
  moreover have "eval_policy ?C (BaseAlgorithm 0) ''venv'' 1 (fresh\<lparr>env_of := \<lambda>a. ''stale env''\<rparr>) =
     Returns [''n_traj'' \<mapsto> 1, ''return_mean'' \<mapsto> 5]
       (fresh\<lparr>env_of := (\<lambda>a. ''stale env'')(0 := ''VecTransposeImage venv'')\<rparr>)"
    by (simp add: five_step_defs)
  ultimately show ?thesis using r by simp
qed

section \<open>The number of episodes\<close>

text \<open>
  C3. With the rollout library as specified and a positive episode count \<open>N\<close>, the
  trajectories that a returning call handed to the statistics are at least \<open>N\<close>
  completed episodes.
\<close>

theorem eval_policy_min_episodes:
  assumes "0 < N"
    and "eval_policy (spec_collaborators seeded reject wrap step_all err) rl venv N s =
           Returns stats s'"
  shows "\<exists>env crit rng s3 trajs s4.
           generate_trajectories_spec step_all rl env crit rng s3 = Returns trajs s4 \<and>
           rollout_stats_spec err trajs s4 = Returns stats s' \<and>
           N \<le> int (length trajs)"
proof -
  let ?C = "spec_collaborators seeded reject wrap step_all err"
  from eval_policy_Returns [OF assms(2)] obtain rng s1 crit s2 env s3 trajs s4 where
    h: "make_min_episodes ?C N s1 = Returns crit s2"
      "generate_trajectories ?C rl env crit rng s3 = Returns trajs s4"
      "rollout_stats ?C trajs s4 = Returns stats s'"
    by blast
  from h(1) have "make_min_episodes_spec reject N s1 = Returns crit s2"
    by (simp add: spec_collaborators_simps)
  from make_min_episodes_spec_Returns [OF this] assms(1)
  have "crit = (\<lambda>trajs. N \<le> int (length trajs))" by simp
  moreover from h(2) have
    gen: "generate_trajectories_spec step_all rl env crit rng s3 = Returns trajs s4"
    by (simp add: spec_collaborators_simps)
  ultimately have "N \<le> int (length trajs)"
    using generate_trajectories_spec_criterion [OF gen] by simp
  moreover from h(3) have "rollout_stats_spec err trajs s4 = Returns stats s'"
    by (simp add: spec_collaborators_simps)
  ultimately show ?thesis using gen by blast
qed

theorem eval_policy_min_episodes_witness:
  "(0::int) < 2 \<and>
   eval_policy (five_step_collaborators (\<lambda>n. None)) (BasePolicy ()) ''venv'' 2 fresh =
     Returns [''n_traj'' \<mapsto> 2, ''return_mean'' \<mapsto> 5] fresh \<and>
   (\<exists>env crit rng s3 trajs s4.
      generate_trajectories_spec five_step_env (BasePolicy ()) env crit rng s3 =
        Returns trajs s4 \<and>
      rollout_stats_spec ''no trajectories'' trajs s4 =
        Returns [''n_traj'' \<mapsto> 2, ''return_mean'' \<mapsto> 5] fresh \<and>
      2 \<le> int (length trajs))"
proof -
  have pos: "(0::int) < 2" by simp
  have run: "eval_policy (five_step_collaborators (\<lambda>n. None)) (BasePolicy ()) ''venv'' 2 fresh =
     Returns [''n_traj'' \<mapsto> 2, ''return_mean'' \<mapsto> 5] fresh"
    by (rule five_step_run_2)
  from eval_policy_min_episodes [OF pos run [unfolded five_step_collaborators_def]] pos run
  show ?thesis by simp
qed

text \<open>
  C5. With the rollout library as specified and an episode count of zero or less, the
  call does not return: it never ends, or it ends with an error, and that error is the
  rejection by the stopping-criterion constructor, an error of \<^verbatim>\<open>set_env\<close>, or an
  error of an environment step. \<^verbatim>\<open>eval_policy\<close> has no check of its own on the count.
\<close>

theorem eval_policy_nonpositive_fails:
  assumes "N \<le> 0"
  shows "eval_policy (spec_collaborators seeded reject wrap step_all err) rl venv N s = Diverges
       \<or> (\<exists>e s'. eval_policy (spec_collaborators seeded reject wrap step_all err) rl venv N s =
             Raises e s' \<and>
             (reject N = Some e \<or>
              (\<exists>a w. wrap a venv w = Inl e) \<or>
              (\<exists>env rng s0. step_all rl env rng s0 = Raises e s')))"
proof (cases "eval_policy (spec_collaborators seeded reject wrap step_all err) rl venv N s")
  case Diverges
  then show ?thesis by simp
next
  case (Raises e s')
  let ?C = "spec_collaborators seeded reject wrap step_all err"
  from eval_policy_Raises [OF Raises]
  consider
    (rng) "make_rng ?C s = Raises e s'"
  | (crit) s1 where "make_min_episodes ?C N s1 = Raises e s'"
  | (wrap) a w where "wrap_env ?C a venv w = Inl e"
  | (gen) env crit rng s3 where "generate_trajectories ?C rl env crit rng s3 = Raises e s'"
  | (stats) s1 crit s2 env rng s3 trajs s4 where
      "make_min_episodes ?C N s1 = Returns crit s2"
      and "generate_trajectories ?C rl env crit rng s3 = Returns trajs s4"
    by blast
  then have "reject N = Some e \<or> (\<exists>a w. wrap a venv w = Inl e) \<or>
        (\<exists>env rng s0. step_all rl env rng s0 = Raises e s')"
  proof cases
    case rng
    then show ?thesis by (simp add: spec_collaborators_simps make_rng_spec_def)
  next
    case crit
    from make_min_episodes_spec_Raises [OF crit [unfolded spec_collaborators_simps]]
    show ?thesis by simp
  next
    case wrap
    then have "wrap a venv w = Inl e" by (simp add: spec_collaborators_simps)
    then show ?thesis by blast
  next
    case gen
    from generate_trajectories_spec_Raises [OF gen [unfolded spec_collaborators_simps]]
    show ?thesis by blast
  next
    case stats
    from make_min_episodes_spec_Returns [OF stats(1) [unfolded spec_collaborators_simps]] assms
    have "crit = (\<lambda>trajs. False)" by simp
    with generate_trajectories_spec_criterion [OF stats(2) [unfolded spec_collaborators_simps]]
    show ?thesis by simp
  qed
  with Raises show ?thesis by simp
next
  case (Returns stats s')
  let ?C = "spec_collaborators seeded reject wrap step_all err"
  from eval_policy_Returns [OF Returns] obtain rng s1 crit s2 env s3 trajs s4 where
    h: "make_min_episodes ?C N s1 = Returns crit s2"
      "generate_trajectories ?C rl env crit rng s3 = Returns trajs s4"
    by blast
  from h(1) have "make_min_episodes_spec reject N s1 = Returns crit s2"
    by (simp add: spec_collaborators_simps)
  from make_min_episodes_spec_Returns [OF this] assms
  have "crit = (\<lambda>trajs. False)" by simp
  moreover from h(2) have
    "generate_trajectories_spec step_all rl env crit rng s3 = Returns trajs s4"
    by (simp add: spec_collaborators_simps)
  ultimately have False using generate_trajectories_spec_criterion by fastforce
  then show ?thesis ..
qed

theorem eval_policy_nonpositive_fails_witness:
  "(0::int) \<le> 0 \<and>
   eval_policy (five_step_collaborators (\<lambda>n. Some ''n must be positive'')) (BasePolicy ())
     ''venv'' 0 fresh = Raises ''n must be positive'' fresh \<and>
   eval_policy (five_step_collaborators (\<lambda>n. None)) (BasePolicy ()) ''venv'' 0 fresh = Diverges"
proof -
  have le: "(0::int) \<le> 0" by simp
  from eval_policy_nonpositive_fails
    [OF le, of "\<lambda>w. 0" "\<lambda>n. Some ''n must be positive''" transpose_wrapper five_step_env
      "''no trajectories''" "BasePolicy ()" "''venv''" fresh]
    eval_policy_nonpositive_fails
    [OF le, of "\<lambda>w. 0" "\<lambda>n. None" transpose_wrapper five_step_env
      "''no trajectories''" "BasePolicy ()" "''venv''" fresh]
    five_step_rejects five_step_diverges
  show ?thesis by simp
qed

subsection \<open>Runs with a monitor\<close>

lemma monitored_run:
  "eval_policy monitored_collaborators (BasePolicy ()) ''venv'' 1 fresh =
     Returns [''n_traj'' \<mapsto> 1, ''return_mean'' \<mapsto> 5,
              ''monitor_return_len'' \<mapsto> 1, ''monitor_return_mean'' \<mapsto> 5] fresh"
  by (simp add: monitored_collaborators_def monitor_wrapped_def five_step_defs)

lemma monitored_run_2:
  "eval_policy monitored_collaborators (BasePolicy ()) ''venv'' 2 fresh =
     Returns [''n_traj'' \<mapsto> 2, ''return_mean'' \<mapsto> 5,
              ''monitor_return_len'' \<mapsto> 2, ''monitor_return_mean'' \<mapsto> 5] fresh"
  by (simp add: monitored_collaborators_def monitor_wrapped_def five_step_defs)

lemma sparse_monitor_run_1:
  "eval_policy sparse_monitor_collaborators (BasePolicy ()) ''venv'' 1 fresh =
     Returns [''n_traj'' \<mapsto> 1, ''return_mean'' \<mapsto> 2] (fresh\<lparr>world := 2\<rparr>)"
  by (simp add: sparse_monitor_collaborators_def sparse_monitor_env_def two_step_episode_def
      five_step_defs)

lemma sparse_monitor_run_2:
  "eval_policy sparse_monitor_collaborators (BasePolicy ()) ''venv'' 2 fresh =
     Returns [''n_traj'' \<mapsto> 2, ''return_mean'' \<mapsto> 2,
              ''monitor_return_len'' \<mapsto> 1, ''monitor_return_mean'' \<mapsto> 2] fresh"
  by (simp add: sparse_monitor_collaborators_def sparse_monitor_env_def two_step_episode_def
      five_step_defs)

text \<open>
  The key set of the statistics depends on whether a generated trajectory carries a
  secondary return. With the monitor that reports every second episode only, one
  episode asked for gives the two keys of the environment's own returns, two episodes
  asked for give four keys: the same policy, the same environment and the same state,
  both episode counts positive, and different key sets.
\<close>

theorem eval_policy_same_keys_counterexample:
  "(0::int) < 1 \<and> (0::int) < 2 \<and>
   eval_policy sparse_monitor_collaborators (BasePolicy ()) ''venv'' 1 fresh =
     Returns [''n_traj'' \<mapsto> 1, ''return_mean'' \<mapsto> 2] (fresh\<lparr>world := 2\<rparr>) \<and>
   eval_policy sparse_monitor_collaborators (BasePolicy ()) ''venv'' 2 fresh =
     Returns [''n_traj'' \<mapsto> 2, ''return_mean'' \<mapsto> 2,
              ''monitor_return_len'' \<mapsto> 1, ''monitor_return_mean'' \<mapsto> 2] fresh \<and>
   dom [''n_traj'' \<mapsto> 1::real, ''return_mean'' \<mapsto> 2] \<noteq>
   dom [''n_traj'' \<mapsto> 2::real, ''return_mean'' \<mapsto> 2,
        ''monitor_return_len'' \<mapsto> 1, ''monitor_return_mean'' \<mapsto> 2]"
proof -
  have "''monitor_return_len'' \<notin> dom [''n_traj'' \<mapsto> 1::real, ''return_mean'' \<mapsto> 2]"
    by simp
  moreover have "''monitor_return_len'' \<in>
      dom [''n_traj'' \<mapsto> 2::real, ''return_mean'' \<mapsto> 2,
           ''monitor_return_len'' \<mapsto> 1, ''monitor_return_mean'' \<mapsto> 2]"
    by simp
  ultimately have "dom [''n_traj'' \<mapsto> 1::real, ''return_mean'' \<mapsto> 2] \<noteq>
      dom [''n_traj'' \<mapsto> 2::real, ''return_mean'' \<mapsto> 2,
           ''monitor_return_len'' \<mapsto> 1, ''monitor_return_mean'' \<mapsto> 2]"
    by metis
  with sparse_monitor_run_1 sparse_monitor_run_2 show ?thesis by simp
qed

text \<open>
  C8 (amended). With the rollout library as specified, on an environment that attaches
  the secondary reward signal to every episode it completes, or to none, two returning
  calls return statistics with the same set of keys, whatever the two episode counts:
  the count and the mean of the environment's own returns, and the count and the mean
  of the secondary returns exactly when the environment attaches the signal. As first
  stated, for every environment, the property fails, as the run above with the monitor
  that reports every second episode shows.
\<close>

theorem eval_policy_same_keys:
  assumes uniform: "\<And>env rng s finished s'.
      step_all rl env rng s = Returns finished s' \<Longrightarrow>
      \<forall>t \<in> set finished. (secondary_return t \<noteq> None) = monitored"
    and run1: "eval_policy (spec_collaborators seeded reject wrap step_all err) rl venv N1 s1 =
           Returns stats1 s1'"
    and run2: "eval_policy (spec_collaborators seeded reject wrap step_all err) rl venv N2 s2 =
           Returns stats2 s2'"
  shows "dom stats1 = dom stats2 \<and> dom stats1 = statistics_keys monitored"
proof -
  have keys: "dom stats = statistics_keys monitored"
    if run: "eval_policy (spec_collaborators seeded reject wrap step_all err) rl venv N s =
          Returns stats s'" for N s stats s'
  proof -
    from eval_policy_spec_keys [OF run] obtain env crit rng s3 trajs s4 where
      gen: "generate_trajectories_spec step_all rl env crit rng s3 = Returns trajs s4"
      and ne: "trajs \<noteq> []"
      and dom: "dom stats = statistics_keys (\<exists>t \<in> set trajs. secondary_return t \<noteq> None)"
      by blast
    have all: "\<forall>t \<in> set trajs. (secondary_return t \<noteq> None) = monitored"
    proof (rule generate_trajectories_spec_all
        [where P = "\<lambda>t. (secondary_return t \<noteq> None) = monitored", OF gen])
      fix s finished s'
      assume "step_all rl env rng s = Returns finished s'"
      then show "\<forall>t \<in> set finished. (secondary_return t \<noteq> None) = monitored"
        by (rule uniform)
    qed
    from ne obtain t where "t \<in> set trajs" by (cases trajs) auto
    with all have "(\<exists>t \<in> set trajs. secondary_return t \<noteq> None) = monitored" by blast
    with dom show ?thesis by (simp only:)
  qed
  note k1 = keys [OF run1] and k2 = keys [OF run2]
  show ?thesis
  proof
    from k1 k2 show "dom stats1 = dom stats2" by (simp only:)
    from k1 show "dom stats1 = statistics_keys monitored" .
  qed
qed

theorem eval_policy_same_keys_witness:
  "eval_policy (five_step_collaborators (\<lambda>n. None)) (BasePolicy ()) ''venv'' 1 fresh =
     Returns [''n_traj'' \<mapsto> 1, ''return_mean'' \<mapsto> 5] fresh \<and>
   eval_policy (five_step_collaborators (\<lambda>n. None)) (BasePolicy ()) ''venv'' 2 fresh =
     Returns [''n_traj'' \<mapsto> 2, ''return_mean'' \<mapsto> 5] fresh \<and>
   dom [''n_traj'' \<mapsto> 1::real, ''return_mean'' \<mapsto> 5] =
   dom [''n_traj'' \<mapsto> 2::real, ''return_mean'' \<mapsto> 5] \<and>
   dom [''n_traj'' \<mapsto> 1::real, ''return_mean'' \<mapsto> 5] = statistics_keys False \<and>
   eval_policy monitored_collaborators (BasePolicy ()) ''venv'' 1 fresh =
     Returns [''n_traj'' \<mapsto> 1, ''return_mean'' \<mapsto> 5,
              ''monitor_return_len'' \<mapsto> 1, ''monitor_return_mean'' \<mapsto> 5] fresh \<and>
   eval_policy monitored_collaborators (BasePolicy ()) ''venv'' 2 fresh =
     Returns [''n_traj'' \<mapsto> 2, ''return_mean'' \<mapsto> 5,
              ''monitor_return_len'' \<mapsto> 2, ''monitor_return_mean'' \<mapsto> 5] fresh \<and>
   dom [''n_traj'' \<mapsto> 1::real, ''return_mean'' \<mapsto> 5,
        ''monitor_return_len'' \<mapsto> 1, ''monitor_return_mean'' \<mapsto> 5] =
   dom [''n_traj'' \<mapsto> 2::real, ''return_mean'' \<mapsto> 5,
        ''monitor_return_len'' \<mapsto> 2, ''monitor_return_mean'' \<mapsto> 5] \<and>
   dom [''n_traj'' \<mapsto> 1::real, ''return_mean'' \<mapsto> 5,
        ''monitor_return_len'' \<mapsto> 1, ''monitor_return_mean'' \<mapsto> 5] = statistics_keys True"
proof -
  note r1 = five_step_run [of "\<lambda>n. None"] and r2 = five_step_run_2 [of "\<lambda>n. None"]
  have plain: "\<forall>t \<in> set finished. (secondary_return t \<noteq> None) = False"
    if "five_step_env (BasePolicy ()) env rng s = Returns finished s'"
    for env rng s finished s'
    using that by (auto simp: five_step_env_def five_step_episode_def split: if_splits)
  have wrapped: "\<forall>t \<in> set finished. (secondary_return t \<noteq> None) = True"
    if "monitor_wrapped five_step_env (BasePolicy ()) env rng s = Returns finished s'"
    for env rng s finished s'
    using that
    by (auto simp: monitor_wrapped_def five_step_env_def split: if_splits)
  note t1 = eval_policy_same_keys
    [OF plain r1 [unfolded five_step_collaborators_def] r2 [unfolded five_step_collaborators_def]]
  note t2 = eval_policy_same_keys
    [OF wrapped monitored_run [unfolded monitored_collaborators_def]
      monitored_run_2 [unfolded monitored_collaborators_def]]
  from r1 r2 t1 [THEN conjunct1] t1 [THEN conjunct2] monitored_run monitored_run_2
    t2 [THEN conjunct1] t2 [THEN conjunct2]
  show ?thesis by (intro conjI)
qed

section \<open>The configuration hook sets the normalisation defaults\<close>

lemma getitem_Dict:
  "getitem (Dict kvs) k = (case map_of kvs k of None \<Rightarrow> Inl (KeyError k) | Some x \<Rightarrow> Inr x)"
  by (simp add: getitem_def)

lemma contains_Dict: "contains k (Dict kvs) = Inr (k \<in> fst ` set kvs)"
  by (simp add: contains_def)

lemma config_hook_absent:
  assumes "getitem cfg ''train'' = Inr train"
    and "getitem train ''policy_kwargs'' = Inr (Dict kw)"
    and "''features_extractor_class'' \<notin> fst ` set kw"
  shows "config_hook cfg command_name logger =
           Inr (Dict [(''policy_kwargs'', NORMALIZE_RUNNING_POLICY_KWARGS)])"
  using assms by (simp add: config_hook_def contains_Dict)

lemma config_hook_present:
  assumes "getitem cfg ''train'' = Inr train"
    and "getitem train ''policy_kwargs'' = Inr (Dict kw)"
    and "''features_extractor_class'' \<in> fst ` set kw"
  shows "config_hook cfg command_name logger = Inr (Dict [])"
  using assms by (simp add: config_hook_def contains_Dict)

text \<open>
  C10. For every configuration in which \<^verbatim>\<open>config["train"]["policy_kwargs"]\<close> is a
  dictionary, the hook returns \<^verbatim>\<open>{"policy_kwargs": NORMALIZE_RUNNING_POLICY_KWARGS}\<close>
  if and only if the key \<^verbatim>\<open>"features_extractor_class"\<close> is absent from that
  dictionary, and returns the empty mapping, an update that changes nothing, otherwise.
\<close>

theorem config_hook_normalize_iff_absent:
  assumes "getitem cfg ''train'' = Inr train"
    and "getitem train ''policy_kwargs'' = Inr (Dict kw)"
  shows "(config_hook cfg command_name logger =
            Inr (Dict [(''policy_kwargs'', NORMALIZE_RUNNING_POLICY_KWARGS)])
          \<longleftrightarrow> ''features_extractor_class'' \<notin> fst ` set kw)
       \<and> (config_hook cfg command_name logger = Inr (Dict [])
          \<longleftrightarrow> ''features_extractor_class'' \<in> fst ` set kw)"
proof (cases "''features_extractor_class'' \<in> fst ` set kw")
  case True
  with assms have "config_hook cfg command_name logger = Inr (Dict [])"
    by (rule config_hook_present)
  with True show ?thesis by simp
next
  case False
  with assms have "config_hook cfg command_name logger =
      Inr (Dict [(''policy_kwargs'', NORMALIZE_RUNNING_POLICY_KWARGS)])"
    by (rule config_hook_absent)
  with False show ?thesis by simp
qed

theorem config_hook_normalize_iff_absent_witness:
  "getitem (Dict [(''train'', config)]) ''train'' = Inr config \<and>
   getitem config ''policy_kwargs'' = Inr (Dict []) \<and>
   config_hook (Dict [(''train'', config)]) () () =
     Inr (Dict [(''policy_kwargs'', NORMALIZE_RUNNING_POLICY_KWARGS)]) \<and>
   getitem (Dict [(''train'', normalize_disable)]) ''train'' = Inr normalize_disable \<and>
   getitem normalize_disable ''policy_kwargs'' =
     Inr (Dict [(''features_extractor_class'', Cls ''torch_layers.FlattenExtractor'')]) \<and>
   config_hook (Dict [(''train'', normalize_disable)]) () () = Inr (Dict [])"
proof -
  have a: "getitem (Dict [(''train'', config)]) ''train'' = Inr config"
    by (simp add: getitem_def)
  have b: "getitem config ''policy_kwargs'' = Inr (Dict [])"
    by (simp add: getitem_def config_def)
  have c: "getitem (Dict [(''train'', normalize_disable)]) ''train'' = Inr normalize_disable"
    by (simp add: getitem_def)
  have d: "getitem normalize_disable ''policy_kwargs'' =
     Inr (Dict [(''features_extractor_class'', Cls ''torch_layers.FlattenExtractor'')])"
    by (simp add: getitem_def normalize_disable_def)
  from config_hook_normalize_iff_absent [OF a b, of "()" "()"]
    config_hook_normalize_iff_absent [OF c d, of "()" "()"] a b c d
  show ?thesis by simp
qed

end
